theory Spec2Isabelle
  imports Main
begin

section \<open>Values, exceptions and strings\<close>

text \<open>
  \<^verbatim>\<open>AbstractModel\<close> (src/src/nnsight/models/AbstractModel.py) is the glue between a host
  torch module, the intervention graph, the hook manager and the editor. Inputs, outputs
  and activations are opaque to it (\<^verbatim>\<open>Any\<close>); a raised exception is a value.
\<close>

datatype pyval = PyNone | PyInt int | PyStr string | PyList "pyval list"

datatype exn = Exn string

text \<open>
  Python's \<^verbatim>\<open>name.split(".")\<close>: one more piece than there are separators, empty
  pieces kept, \<^verbatim>\<open>"".split(".") == [""]\<close>.
\<close>

fun split :: "char \<Rightarrow> string \<Rightarrow> string list" where
  "split c [] = [[]]"
| "split c (x # xs) =
     (if x = c then [] # split c xs
      else (let r = split c xs in (x # hd r) # tl r))"

text \<open>Python's \<^verbatim>\<open>".".join(pieces)\<close>.\<close>

fun join :: "char \<Rightarrow> string list \<Rightarrow> string" where
  "join c [] = []"
| "join c [w] = w"
| "join c (w # v # ws) = w @ c # join c (v # ws)"

text \<open>
  Python's slice \<^verbatim>\<open>pieces[:-2]\<close>: everything but the last two elements, and the
  empty list when there are fewer than two.
\<close>

definition slice_to_minus2 :: "'a list \<Rightarrow> 'a list" where
  "slice_to_minus2 xs = take (length xs - 2) xs"

text \<open>The comprehension element \<^verbatim>\<open>".".join(name.split(".")[:-2])\<close> of \<^verbatim>\<open>__call__\<close>.\<close>

definition module_of_name :: "string \<Rightarrow> string" where
  "module_of_name name = join (CHR ''.'') (slice_to_minus2 (split (CHR ''.'') name))"

section \<open>Host modules\<close>

text \<open>
  A torch module as far as \<^verbatim>\<open>AbstractModel\<close> looks at it: its class name, whether
  \<^verbatim>\<open>Module.wrap\<close> has re-classed it, the attributes \<^verbatim>\<open>module_path\<close>,
  \<^verbatim>\<open>output_shape\<close> and \<^verbatim>\<open>tracer\<close>, its own tensors and its named children.
\<close>

datatype device = Cpu | Meta

record tensor =
  requires_grad :: bool
  device :: device

datatype module = Module
  (class_name: string)
  (wrapped: bool)
  (module_path: "string option")
  (output_shape: pyval)
  (tracer: pyval)
  (tensors: "tensor list")
  (named_children: "(string \<times> module) list")

text \<open>\<^verbatim>\<open>module.parameters()\<close>: the tensors of the module and of all its descendants.\<close>

primrec parameters :: "module \<Rightarrow> tensor list" where
  "parameters (Module cn w mp sh tr ts cs) =
     ts @ concat (map (\<lambda>nc. snd nc) (map (map_prod id parameters) cs))"

text \<open>
  The loop \<^verbatim>\<open>for param in self.local_model.parameters(): param.requires_grad = False\<close>
  of \<^verbatim>\<open>__call__\<close>, as the update it performs on the module tree.
\<close>

primrec freeze :: "module \<Rightarrow> module" where
  "freeze (Module cn w mp sh tr ts cs) =
     Module cn w mp sh tr (map (\<lambda>t. t\<lparr>requires_grad := False\<rparr>) ts)
       (map (map_prod id freeze) cs)"

text \<open>\<^verbatim>\<open>module.to("meta")\<close>: every tensor of the tree moves to the meta device.\<close>

primrec to_meta :: "module \<Rightarrow> module" where
  "to_meta (Module cn w mp sh tr ts cs) =
     Module cn w mp sh tr (map (\<lambda>t. t\<lparr>device := Meta\<rparr>) ts)
       (map (map_prod id to_meta) cs)"

text \<open>
  Modelled from the spec: \<^verbatim>\<open>Module.wrap\<close> (nnsight/Module.py) is not under src. The
  spec's mirror is "a full structural copy of the host model" whose modules the wrapping
  makes observable: the call re-classes the module it is given, in place, and hands the
  same module back; tensors and children stay as they are.
\<close>

definition Module_wrap :: "module \<Rightarrow> module" where
  "Module_wrap m =
     Module (class_name m) True (module_path m) (output_shape m) (tracer m)
       (tensors m) (named_children m)"

text \<open>
  \<^verbatim>\<open>for name, module in self.meta_model.named_children():
      module = Module.wrap(module); setattr(self.meta_model, name, module)\<close>
\<close>

definition wrap_children :: "module \<Rightarrow> module" where
  "wrap_children m =
     Module (class_name m) (wrapped m) (module_path m) (output_shape m) (tracer m)
       (tensors m) (map (\<lambda>nc. (fst nc, Module_wrap (snd nc))) (named_children m))"

text \<open>
  torch's \<^verbatim>\<open>named_modules()\<close> names the root \<^verbatim>\<open>""\<close> and a child
  \<^verbatim>\<open>prefix + ("." if prefix else "") + name\<close>.
\<close>

definition submodule_prefix :: "string \<Rightarrow> string \<Rightarrow> string" where
  "submodule_prefix prefix name = prefix @ (if prefix = [] then [] else ''.'') @ name"

text \<open>
  \<^verbatim>\<open>for name, module in self.meta_model.named_modules(): module.module_path = name\<close>
\<close>

primrec set_module_paths :: "module \<Rightarrow> string \<Rightarrow> module" where
  "set_module_paths (Module cn w mp sh tr ts cs) =
     (\<lambda>prefix. Module cn w (Some prefix) sh tr ts
        (map (\<lambda>nf. (fst nf, snd nf (submodule_prefix prefix (fst nf))))
           (map (map_prod id set_module_paths) cs)))"

section \<open>The intervention graph, edits and hooks\<close>

text \<open>
  Modelled from the spec: \<^verbatim>\<open>Graph\<close> (nnsight/tracing/Graph.py) is not under src.
  \<^verbatim>\<open>__call__\<close> reads the keys of its dictionary \<^verbatim>\<open>argument_node_names\<close>; the spec
  gives it the nodes and an iteration counter that starts at 0.
\<close>

record graph =
  argument_node_names :: "(string \<times> string list) list"
  nodes :: "(string \<times> pyval option) list"
  iteration_counter :: int

text \<open>
  Modelled from the spec: \<^verbatim>\<open>Graph.increment\<close> is not under src. It "advances
  \<^verbatim>\<open>iteration_counter\<close> by 1" and returns nothing.
\<close>

definition Graph_increment :: "graph \<Rightarrow> graph" where
  "Graph_increment g = g\<lparr>iteration_counter := iteration_counter g + 1\<rparr>"

text \<open>
  The two edits \<^verbatim>\<open>modulize\<close> constructs: \<^verbatim>\<open>WrapperModuleEdit(module_path, module_name)\<close>
  with its attribute \<^verbatim>\<open>wrapper\<close>, and \<^verbatim>\<open>GraphEdit(module_path, graph)\<close>.
\<close>

datatype edit =
    WrapperModuleEdit (edit_path: string) (edit_name: string) (wrapper: module)
  | GraphEdit (edit_path: string) (edit_graph: graph)

text \<open>
  A hook on the host is a callback. The callbacks close over the graph object, which they
  mutate; here they take the graph and return it updated. A forward hook gets
  \<^verbatim>\<open>(module, input, output)\<close> and its result, unless \<^verbatim>\<open>None\<close>, replaces the output; an
  activation hook gets \<^verbatim>\<open>(activations, module_path)\<close>.
\<close>

type_synonym forward_hook = "module \<Rightarrow> pyval \<Rightarrow> pyval \<Rightarrow> graph \<Rightarrow> pyval \<times> graph"

type_synonym activation_hook = "pyval \<Rightarrow> string \<Rightarrow> graph \<Rightarrow> exn + pyval \<times> graph"

datatype hook =
    ForwardHook forward_hook
  | InputHook string activation_hook
  | OutputHook string activation_hook

text \<open>
  A torch module object in the store: its tree, its \<^verbatim>\<open>training\<close> flag and the hooks
  registered on it, each under the id of its \<^verbatim>\<open>RemovableHandle\<close>.
\<close>

record host_obj =
  tree :: module
  training :: bool
  hooks :: "(nat \<times> hook) list"

section \<open>Collaborators\<close>

text \<open>
  The abstract methods of \<^verbatim>\<open>AbstractModel\<close>, which every host family implements, and the
  collaborators imported from modules that are not under src, are parameters of the model.
  Each may raise. \<^verbatim>\<open>Edit_edit\<close> is the \<^verbatim>\<open>edit\<close> method the source calls (the spec's
  \<^verbatim>\<open>apply\<close>), \<^verbatim>\<open>Edit_revert\<close> the spec's \<^verbatim>\<open>revert\<close>; \<^verbatim>\<open>proxy_call\<close> is
  \<^verbatim>\<open>getattr(graph.module_proxy, module_name)(graph.nodes[node_name])\<close>.
\<close>

record env =
  REPOID_TO_ALTERATION :: "string \<Rightarrow> string list option"
  load_meta :: "string \<Rightarrow> pyval list \<Rightarrow> (string \<times> pyval) list \<Rightarrow> exn + host_obj"
  load_local :: "string \<Rightarrow> pyval list \<Rightarrow> (string \<times> pyval) list \<Rightarrow> exn + host_obj"
  prepare_inputs :: "pyval \<Rightarrow> exn + pyval"
  example_input :: "exn + pyval"
  scan :: "module \<Rightarrow> pyval \<Rightarrow> exn + module"
  Graph_compile :: "graph \<Rightarrow> module \<Rightarrow> exn + graph"
  intervene :: "pyval \<Rightarrow> string \<Rightarrow> graph \<Rightarrow> string \<Rightarrow> exn + pyval \<times> graph"
  Edit_edit :: "edit \<Rightarrow> module \<Rightarrow> exn + module"
  Edit_revert :: "edit \<Rightarrow> module \<Rightarrow> module"
  proxy_call :: "graph \<Rightarrow> string \<Rightarrow> string \<Rightarrow> exn + graph"

text \<open>
  The function \<^verbatim>\<open>fn\<close> given to \<^verbatim>\<open>__call__\<close> runs the host: it gets the prepared inputs
  and \<^verbatim>\<open>*args, **kwargs\<close>, sees the host object with the hooks installed on it, fires
  them against the graph, and returns an output or raises.
\<close>

type_synonym host_fn =
  "pyval \<Rightarrow> pyval list \<Rightarrow> (string \<times> pyval) list \<Rightarrow> host_obj \<Rightarrow> graph \<Rightarrow> (exn + pyval) \<times> graph"

section \<open>State\<close>

text \<open>
  Every call the source makes on a collaborator is recorded, in order, in a trace.
\<close>

datatype event =
    PatcherEnter "string list"
  | PatcherExit "string list"
  | LoadMeta string
  | DeepCopy nat
  | ToMeta nat
  | Wrap nat
  | WrapChildren nat
  | SetModulePaths nat
  | ExampleInput
  | PrepareInputs pyval
  | Scan pyval
  | LoadLocal string
  | Freeze nat
  | EditorEnter
  | EditApply edit
  | EditRevert edit
  | EditorExit
  | RegisterIncrementHook nat
  | Compile
  | SetTraining bool
  | InferenceModeEnter bool
  | InferenceModeExit
  | HookModelEnter "string list"
  | HookModelExit
  | CallFn pyval
  | RemoveHandle nat
  | MetaEdit edit
  | ProxyCall string string
  | EditsAppend edit

text \<open>
  The attributes of one \<^verbatim>\<open>AbstractModel\<close> instance, and the world around it: the store
  of torch module objects (\<^verbatim>\<open>meta_model\<close> and \<^verbatim>\<open>local_model\<close> are references into
  it), the counters that number new objects and new hook handles, and the trace.
\<close>

record state =
  repoid_path_clsname :: string
  args :: "pyval list"
  kwargs :: "(string \<times> pyval) list"
  alter :: bool
  dispatched :: bool
  custom_model :: bool
  meta_model :: "nat option"
  tokenizer :: pyval
  local_model :: "nat option"
  edits :: "edit list"
  objs :: "nat \<Rightarrow> host_obj option"
  next_obj :: nat
  next_handle :: nat
  trace :: "event list"

definition emit :: "event \<Rightarrow> state \<Rightarrow> state" where
  "emit e st = st\<lparr>trace := trace st @ [e]\<rparr>"

text \<open>A new object gets the next free reference.\<close>

definition alloc :: "host_obj \<Rightarrow> state \<Rightarrow> nat \<times> state" where
  "alloc ob st =
     (next_obj st, st\<lparr>objs := (objs st)(next_obj st \<mapsto> ob), next_obj := Suc (next_obj st)\<rparr>)"

text \<open>In-place updates of the object behind a reference.\<close>

definition upd_obj :: "nat \<Rightarrow> (host_obj \<Rightarrow> host_obj) \<Rightarrow> state \<Rightarrow> state" where
  "upd_obj a f st = st\<lparr>objs := (objs st)(a := map_option f (objs st a))\<rparr>"

definition upd_tree :: "nat \<Rightarrow> (module \<Rightarrow> module) \<Rightarrow> state \<Rightarrow> state" where
  "upd_tree a f st = upd_obj a (\<lambda>ob. ob\<lparr>tree := f (tree ob)\<rparr>) st"

definition upd_hooks :: "nat \<Rightarrow> ((nat \<times> hook) list \<Rightarrow> (nat \<times> hook) list) \<Rightarrow> state \<Rightarrow> state" where
  "upd_hooks a f st = upd_obj a (\<lambda>ob. ob\<lparr>hooks := f (hooks ob)\<rparr>) st"

text \<open>\<^verbatim>\<open>module.eval()\<close> is \<^verbatim>\<open>set_training False\<close>, \<^verbatim>\<open>module.train()\<close> is \<^verbatim>\<open>set_training True\<close>.\<close>

definition set_training :: "nat \<Rightarrow> bool \<Rightarrow> state \<Rightarrow> state" where
  "set_training a b st = emit (SetTraining b) (upd_obj a (\<lambda>ob. ob\<lparr>training := b\<rparr>) st)"

text \<open>
  \<^verbatim>\<open>alteration\<close>: \<^verbatim>\<open>REPOID_TO_ALTERATION.get(self.repoid_path_clsname, Patcher())\<close>. A
  patcher is the list of its patches, \<^verbatim>\<open>Patcher()\<close> the empty one. The context entered
  around loading is \<^verbatim>\<open>self.alteration() if self.alter else Patcher()\<close>.
\<close>

definition alteration :: "env \<Rightarrow> state \<Rightarrow> string list" where
  "alteration env st =
     (case REPOID_TO_ALTERATION env (repoid_path_clsname st) of None \<Rightarrow> [] | Some p \<Rightarrow> p)"

definition loading_patcher :: "env \<Rightarrow> state \<Rightarrow> string list" where
  "loading_patcher env st = (if alter st then alteration env st else [])"

section \<open>\<^verbatim>\<open>AbstractModel.__init__\<close>\<close>

text \<open>
  The constructor gets \<^verbatim>\<open>repoid_path_model\<close>, a string (\<open>Inl\<close>) or a torch module, that
  is a reference to an object of the store (\<open>Inr\<close>). Lines 51 to 66: the attributes are
  set, and for a module (\<^verbatim>\<open>isinstance(repoid_path_model, torch.nn.Module)\<close>) the class
  name is kept, \<^verbatim>\<open>custom_model\<close> and \<^verbatim>\<open>dispatched\<close> become true and the module itself
  becomes \<^verbatim>\<open>local_model\<close>.
\<close>

definition init_fields ::
  "string + nat \<Rightarrow> pyval list \<Rightarrow> (string \<times> pyval) list \<Rightarrow> bool \<Rightarrow> pyval \<Rightarrow> state \<Rightarrow> state" where
  "init_fields repoid_path_model ar kw al tok st =
     st\<lparr>repoid_path_clsname :=
          (case repoid_path_model of
             Inl s \<Rightarrow> s
           | Inr a \<Rightarrow> (case objs st a of None \<Rightarrow> [] | Some ob \<Rightarrow> class_name (tree ob))),
        args := ar,
        kwargs := kw,
        alter := al,
        dispatched := (case repoid_path_model of Inl s \<Rightarrow> False | Inr a \<Rightarrow> True),
        custom_model := (case repoid_path_model of Inl s \<Rightarrow> False | Inr a \<Rightarrow> True),
        meta_model := None,
        tokenizer := tok,
        local_model := (case repoid_path_model of Inl s \<Rightarrow> None | Inr a \<Rightarrow> Some a),
        edits := []\<rparr>"

text \<open>
  Lines 74 to 83, the object the mirror is made of: \<^verbatim>\<open>copy.deepcopy(self.local_model)\<close>
  for a custom model, the result of \<^verbatim>\<open>_load_meta\<close> otherwise. A reference that denotes
  no object is no Python value; the model raises there.
\<close>

definition mirror_source :: "env \<Rightarrow> state \<Rightarrow> (exn + host_obj) \<times> state" where
  "mirror_source env st =
     (if custom_model st then
        (case local_model st of
           None \<Rightarrow> (Inl (Exn ''ReferenceError''), st)
         | Some a \<Rightarrow>
             (case objs st a of
                None \<Rightarrow> (Inl (Exn ''ReferenceError''), st)
              | Some ob \<Rightarrow> (Inr ob, emit (DeepCopy a) st)))
      else
        (case load_meta env (repoid_path_clsname st) (args st) (kwargs st) of
           Inl e \<Rightarrow> (Inl e, emit (LoadMeta (repoid_path_clsname st)) st)
         | Inr ob \<Rightarrow> (Inr ob, emit (LoadMeta (repoid_path_clsname st)) st)))"

text \<open>
  The deep copy, or the freshly loaded module, is a new object; \<^verbatim>\<open>.to("meta")\<close> and
  \<^verbatim>\<open>Module.wrap\<close> update it in place and \<^verbatim>\<open>self.meta_model\<close> refers to it.
\<close>

definition build_meta :: "env \<Rightarrow> state \<Rightarrow> (exn + nat) \<times> state" where
  "build_meta env st =
     (case mirror_source env st of
        (Inl e, st1) \<Rightarrow> (Inl e, st1)
      | (Inr ob, st1) \<Rightarrow>
          (case alloc ob st1 of
             (b, st2) \<Rightarrow>
               (let st3 = emit (ToMeta b) (upd_tree b to_meta st2);
                    st4 = emit (Wrap b) (upd_tree b Module_wrap st3)
                in (Inr b, st4\<lparr>meta_model := Some b\<rparr>))))"

text \<open>Line 96: \<^verbatim>\<open>self._scan(self._prepare_inputs(self._example_input()))\<close>.\<close>

definition run_scan :: "env \<Rightarrow> nat \<Rightarrow> state \<Rightarrow> (exn + unit) \<times> state" where
  "run_scan env b st =
     (case example_input env of
        Inl e \<Rightarrow> (Inl e, emit ExampleInput st)
      | Inr x \<Rightarrow>
          (case prepare_inputs env x of
             Inl e \<Rightarrow> (Inl e, emit (PrepareInputs x) (emit ExampleInput st))
           | Inr y \<Rightarrow>
               (let st1 = emit (Scan y) (emit (PrepareInputs x) (emit ExampleInput st))
                in case objs st1 b of
                     None \<Rightarrow> (Inl (Exn ''ReferenceError''), st1)
                   | Some ob \<Rightarrow>
                       (case scan env (tree ob) y of
                          Inl e \<Rightarrow> (Inl e, st1)
                        | Inr t \<Rightarrow> (Inr (), upd_tree b (\<lambda>old. t) st1)))))"

text \<open>
  The whole constructor: the attributes, the mirror built inside the patcher context
  (which is left on an exception too), the children wrapped (lines 86 to 89), the module
  paths set (lines 92 and 93), the scan.
\<close>

definition init ::
  "env \<Rightarrow> string + nat \<Rightarrow> pyval list \<Rightarrow> (string \<times> pyval) list \<Rightarrow> bool \<Rightarrow> pyval \<Rightarrow> state
     \<Rightarrow> (exn + unit) \<times> state" where
  "init env repoid_path_model ar kw al tok st =
     (let st1 = init_fields repoid_path_model ar kw al tok st;
          p = loading_patcher env st1
      in case build_meta env (emit (PatcherEnter p) st1) of
           (Inl e, st2) \<Rightarrow> (Inl e, emit (PatcherExit p) st2)
         | (Inr b, st2) \<Rightarrow>
             (let st3 = emit (PatcherExit p) st2;
                  st4 = emit (WrapChildren b) (upd_tree b wrap_children st3);
                  st5 = emit (SetModulePaths b) (upd_tree b (\<lambda>m. set_module_paths m []) st4)
              in run_scan env b st5))"

section \<open>\<^verbatim>\<open>AbstractModel.__call__\<close>\<close>

text \<open>
  Lines 141 to 151: the local model is loaded on first use, inside the patcher context,
  and all its parameters are frozen; \<^verbatim>\<open>dispatched\<close> is set after the context is left,
  so not when loading raised.
\<close>

definition dispatch :: "env \<Rightarrow> state \<Rightarrow> (exn + unit) \<times> state" where
  "dispatch env st =
     (if \<not> dispatched st then
        (let p = loading_patcher env st;
             st1 = emit (LoadLocal (repoid_path_clsname st)) (emit (PatcherEnter p) st)
         in case load_local env (repoid_path_clsname st) (args st) (kwargs st) of
              Inl e \<Rightarrow> (Inl e, emit (PatcherExit p) st1)
            | Inr ob \<Rightarrow>
                (case alloc ob st1 of
                   (a, st2) \<Rightarrow>
                     (let st3 = st2\<lparr>local_model := Some a\<rparr>;
                          st4 = emit (Freeze a) (upd_tree a freeze st3);
                          st5 = emit (PatcherExit p) st4
                      in (Inr (), st5\<lparr>dispatched := True\<rparr>))))
      else (Inr (), st))"

text \<open>
  Modelled from the spec: \<^verbatim>\<open>Editor\<close> (nnsight/editing/Editor.py) is not under src.
  "On entry, applies a list of Edits in order to the live host's module tree; on exit
  (normal or exceptional), reverts them in reverse order"; "if apply partially succeeds
  then fails, the Editor must still attempt revert for the successfully-applied prefix
  before propagating the error". \<^verbatim>\<open>apply_edits\<close> returns the edits it applied, the
  exception that stopped it if any, and the tree it reached.
\<close>

fun apply_edits :: "env \<Rightarrow> edit list \<Rightarrow> module \<Rightarrow> edit list \<times> exn option \<times> module" where
  "apply_edits env [] t = ([], None, t)"
| "apply_edits env (e # es) t =
     (case Edit_edit env e t of
        Inl x \<Rightarrow> ([], Some x, t)
      | Inr t' \<Rightarrow> (case apply_edits env es t' of (applied, r, t'') \<Rightarrow> (e # applied, r, t'')))"

fun revert_edits :: "env \<Rightarrow> edit list \<Rightarrow> module \<Rightarrow> module" where
  "revert_edits env [] t = t"
| "revert_edits env (e # es) t = Edit_revert env e (revert_edits env es t)"

definition emits :: "event list \<Rightarrow> state \<Rightarrow> state" where
  "emits es st = st\<lparr>trace := trace st @ es\<rparr>"

definition Editor_enter :: "env \<Rightarrow> nat \<Rightarrow> edit list \<Rightarrow> state \<Rightarrow> (exn + unit) \<times> state" where
  "Editor_enter env a es st =
     (case objs st a of
        None \<Rightarrow> (Inl (Exn ''ReferenceError''), st)
      | Some ob \<Rightarrow>
          (case apply_edits env es (tree ob) of
             (applied, None, t) \<Rightarrow>
               (Inr (), emits (EditorEnter # map EditApply applied) (upd_tree a (\<lambda>old. t) st))
           | (applied, Some x, t) \<Rightarrow>
               (Inl x,
                emits (EditorEnter # map EditApply applied @ map EditRevert (rev applied))
                  (upd_tree a (\<lambda>old. revert_edits env applied t) st))))"

definition Editor_exit :: "env \<Rightarrow> nat \<Rightarrow> edit list \<Rightarrow> state \<Rightarrow> state" where
  "Editor_exit env a es st =
     emits (map EditRevert (rev es) @ [EditorExit]) (upd_tree a (revert_edits env es) st)"

text \<open>
  Modelled from the spec: the implementations of \<^verbatim>\<open>_register_increment_hook\<close> are not
  under src. The hook is "bound to a single, host-model-specific" point of the host; the
  method registers the callback on the local model and returns the handle that removes
  it. \<^verbatim>\<open>RemovableHandle.remove\<close> deletes the hook registered under the handle's id.
\<close>

definition register_increment_hook :: "nat \<Rightarrow> forward_hook \<Rightarrow> state \<Rightarrow> nat \<times> state" where
  "register_increment_hook a cb st =
     (next_handle st,
      (emit (RegisterIncrementHook (next_handle st))
         (upd_hooks a (\<lambda>hs. hs @ [(next_handle st, ForwardHook cb)]) st))
        \<lparr>next_handle := Suc (next_handle st)\<rparr>)"

definition remove_handle :: "nat \<Rightarrow> nat \<Rightarrow> state \<Rightarrow> state" where
  "remove_handle a h st =
     emit (RemoveHandle h) (upd_hooks a (filter (\<lambda>nh. fst nh \<noteq> h)) st)"

text \<open>
  Modelled from the spec: \<^verbatim>\<open>HookModel\<close> (nnsight/intervention.py) is not under src.
  \<^verbatim>\<open>begin\<close> attaches "an input-observation and an output-observation point to every
  module path" it is given, \<^verbatim>\<open>end\<close> detaches them, also when the host execution
  raised.
\<close>

fun attach :: "activation_hook \<Rightarrow> activation_hook \<Rightarrow> string list \<Rightarrow> nat \<Rightarrow> (nat \<times> hook) list" where
  "attach ih oh [] n = []"
| "attach ih oh (p # ps) n =
     (n, InputHook p ih) # (Suc n, OutputHook p oh) # attach ih oh ps (Suc (Suc n))"

definition HookModel_enter ::
  "nat \<Rightarrow> string list \<Rightarrow> activation_hook \<Rightarrow> activation_hook \<Rightarrow> state \<Rightarrow> nat list \<times> state" where
  "HookModel_enter a ps ih oh st =
     (let new = attach ih oh ps (next_handle st)
      in (map fst new,
          (emit (HookModelEnter ps) (upd_hooks a (\<lambda>hs. hs @ new) st))
            \<lparr>next_handle := next_handle st + 2 * length ps\<rparr>))"

definition HookModel_exit :: "nat \<Rightarrow> nat list \<Rightarrow> state \<Rightarrow> state" where
  "HookModel_exit a handles st =
     emit HookModelExit (upd_hooks a (filter (\<lambda>nh. fst nh \<notin> set handles)) st)"

text \<open>
  The callbacks \<^verbatim>\<open>__call__\<close> creates: line 157,
  \<^verbatim>\<open>lambda module, input, output: graph.increment()\<close>, and lines 181 to 186,
  \<^verbatim>\<open>lambda activations, module_path: intervene(activations, module_path, graph, "input")\<close>
  and the same with \<^verbatim>\<open>"output"\<close>.
\<close>

definition increment_hook :: forward_hook where
  "increment_hook m inp outp g = (PyNone, Graph_increment g)"

definition input_hook :: "env \<Rightarrow> activation_hook" where
  "input_hook env activations path g = intervene env activations path g ''input''"

definition output_hook :: "env \<Rightarrow> activation_hook" where
  "output_hook env activations path g = intervene env activations path g ''output''"

text \<open>
  Lines 162 to 167: \<^verbatim>\<open>set([".".join(name.split(".")[:-2]) for name in
  graph.argument_node_names.keys()])\<close>, and \<^verbatim>\<open>list(modules)\<close> of line 180. Python
  leaves the order of that list open; the model takes the order of first occurrence.
\<close>

definition graph_modules :: "graph \<Rightarrow> string list" where
  "graph_modules g = remdups (map module_of_name (map fst (argument_node_names g)))"

text \<open>
  Lines 177 to 188: the host runs inside \<^verbatim>\<open>torch.inference_mode\<close> and
  \<^verbatim>\<open>HookModel\<close>; both contexts are left on an exception too.
\<close>

definition hooked_run ::
  "env \<Rightarrow> host_fn \<Rightarrow> pyval \<Rightarrow> pyval list \<Rightarrow> (string \<times> pyval) list \<Rightarrow> bool \<Rightarrow> nat
     \<Rightarrow> string list \<Rightarrow> graph \<Rightarrow> state \<Rightarrow> (exn + pyval) \<times> state \<times> graph" where
  "hooked_run env fn inputs fargs fkwargs inference a modules g st =
     (case HookModel_enter a modules (input_hook env) (output_hook env)
             (emit (InferenceModeEnter inference) st) of
        (handles, st1) \<Rightarrow>
          (case objs st1 a of
             None \<Rightarrow>
               (Inl (Exn ''ReferenceError''),
                emit InferenceModeExit (HookModel_exit a handles st1), g)
           | Some ob \<Rightarrow>
               (case fn inputs fargs fkwargs ob g of
                  (r, g') \<Rightarrow>
                    (r, emit InferenceModeExit
                          (HookModel_exit a handles (emit (CallFn inputs) st1)), g'))))"

text \<open>Lines 156 to 194, the body of the \<^verbatim>\<open>with Editor(self, edits)\<close> block.\<close>

definition run_body ::
  "env \<Rightarrow> host_fn \<Rightarrow> pyval \<Rightarrow> pyval list \<Rightarrow> (string \<times> pyval) list \<Rightarrow> bool \<Rightarrow> nat
     \<Rightarrow> graph \<Rightarrow> state \<Rightarrow> (exn + pyval) \<times> state \<times> graph" where
  "run_body env fn inputs fargs fkwargs inference a g st =
     (case register_increment_hook a increment_hook st of
        (h, st1) \<Rightarrow>
          (let modules = graph_modules g;
               st2 = emit Compile st1
           in case objs st2 a of
                None \<Rightarrow> (Inl (Exn ''ReferenceError''), st2, g)
              | Some ob \<Rightarrow>
                  (case Graph_compile env g (tree ob) of
                     Inl e \<Rightarrow> (Inl e, st2, g)
                   | Inr g1 \<Rightarrow>
                       (let st3 = set_training a (\<not> inference) st2;
                            st4 = emit (PrepareInputs inputs) st3
                        in case prepare_inputs env inputs of
                             Inl e \<Rightarrow> (Inl e, st4, g1)
                           | Inr inputs' \<Rightarrow>
                               (case hooked_run env fn inputs' fargs fkwargs inference a
                                       modules g1 st4 of
                                  (Inl e, st5, g2) \<Rightarrow> (Inl e, st5, g2)
                                | (Inr output, st5, g2) \<Rightarrow>
                                    (Inr output,
                                     set_training a False (remove_handle a h st5), g2))))))"

text \<open>
  \<^verbatim>\<open>with Editor(self, edits): ...\<close>: when entering raises the body does not run; when
  the body raises the editor is left all the same and the exception goes on.
\<close>

definition with_Editor ::
  "env \<Rightarrow> nat \<Rightarrow> edit list \<Rightarrow> (graph \<Rightarrow> state \<Rightarrow> (exn + pyval) \<times> state \<times> graph)
     \<Rightarrow> graph \<Rightarrow> state \<Rightarrow> (exn + pyval) \<times> state \<times> graph" where
  "with_Editor env a es body g st =
     (case Editor_enter env a es st of
        (Inl e, st1) \<Rightarrow> (Inl e, st1, g)
      | (Inr u, st1) \<Rightarrow>
          (case body g st1 of (r, st2, g') \<Rightarrow> (r, Editor_exit env a es st2, g')))"

text \<open>
  \<^verbatim>\<open>__call__(fn, inputs, graph, *args, edits=None, inference=True, **kwargs)\<close>. The
  graph object the caller passed is returned as the call left it.
\<close>

definition call ::
  "env \<Rightarrow> host_fn \<Rightarrow> pyval \<Rightarrow> graph \<Rightarrow> pyval list \<Rightarrow> edit list option \<Rightarrow> bool
     \<Rightarrow> (string \<times> pyval) list \<Rightarrow> state \<Rightarrow> (exn + pyval) \<times> state \<times> graph" where
  "call env fn inputs g fargs eds inference fkwargs st =
     (let es = (case eds of None \<Rightarrow> edits st | Some given \<Rightarrow> given)
      in case dispatch env st of
           (Inl e, st1) \<Rightarrow> (Inl e, st1, g)
         | (Inr u, st1) \<Rightarrow>
             (case local_model st1 of
                None \<Rightarrow> (Inl (Exn ''ReferenceError''), st1, g)
              | Some a \<Rightarrow>
                  with_Editor env a es (run_body env fn inputs fargs fkwargs inference a) g st1))"

section \<open>\<^verbatim>\<open>AbstractModel.modulize\<close>\<close>

text \<open>
  The argument \<^verbatim>\<open>module\<close> is a module of the mirror whose \<^verbatim>\<open>module_path\<close> the
  constructor has set; \<^verbatim>\<open>modulize\<close> reads its attributes \<^verbatim>\<open>module_path\<close>,
  \<^verbatim>\<open>tracer\<close>, \<^verbatim>\<open>output_shape\<close> and \<^verbatim>\<open>graph\<close>.
\<close>

record module_ref =
  ref_path :: string
  ref_tracer :: pyval
  ref_output_shape :: pyval
  ref_graph :: graph

text \<open>
  Lines 263 to 268: the edit is constructed with a fresh \<^verbatim>\<open>WrapperModule\<close>, which is
  then wrapped and given the path \<^verbatim>\<open>f"{module.module_path}.{module_name}"\<close> and
  the tracer and output shape of \<^verbatim>\<open>module\<close>.
\<close>

definition new_wrapper_edit :: "module_ref \<Rightarrow> string \<Rightarrow> edit" where
  "new_wrapper_edit m module_name =
     (let w = Module_wrap (Module ''WrapperModule'' False None PyNone PyNone [] [])
      in WrapperModuleEdit (ref_path m) module_name
           (Module (class_name w) (wrapped w) (Some (ref_path m @ ''.'' @ module_name))
              (ref_output_shape m) (ref_tracer m) (tensors w) (named_children w)))"

text \<open>
  Lines 270 to 286. Both edits are carried out on the mirror first (\<^verbatim>\<open>MetaEdit\<close> records
  an edit that was applied); the two \<^verbatim>\<open>self.edits.append\<close> calls come last.
\<close>

definition modulize ::
  "env \<Rightarrow> module_ref \<Rightarrow> string \<Rightarrow> string \<Rightarrow> state \<Rightarrow> (exn + unit) \<times> state" where
  "modulize env m node_name module_name st =
     (let wme = new_wrapper_edit m module_name
      in case meta_model st of
           None \<Rightarrow> (Inl (Exn ''ReferenceError''), st)
         | Some b \<Rightarrow>
             (case objs st b of
                None \<Rightarrow> (Inl (Exn ''ReferenceError''), st)
              | Some ob \<Rightarrow>
                  (case Edit_edit env wme (tree ob) of
                     Inl e \<Rightarrow> (Inl e, st)
                   | Inr t1 \<Rightarrow>
                       (let st1 = emit (ProxyCall module_name node_name)
                                    (emit (MetaEdit wme) (upd_tree b (\<lambda>old. t1) st))
                        in case proxy_call env (ref_graph m) module_name node_name of
                             Inl e \<Rightarrow> (Inl e, st1)
                           | Inr g1 \<Rightarrow>
                               (let ge = GraphEdit (ref_path m) g1
                                in case Edit_edit env ge t1 of
                                     Inl e \<Rightarrow> (Inl e, st1)
                                   | Inr t2 \<Rightarrow>
                                       (let st2 = emit (MetaEdit ge) (upd_tree b (\<lambda>old. t2) st1);
                                            st3 = emit (EditsAppend wme)
                                                    (st2\<lparr>edits := edits st2 @ [wme]\<rparr>);
                                            st4 = emit (EditsAppend ge)
                                                    (st3\<lparr>edits := edits st3 @ [ge]\<rparr>)
                                        in (Inr (), st4)))))))"

section \<open>Trace predicates\<close>

text \<open>The events a call added to the trace it started from.\<close>

definition new_events :: "state \<Rightarrow> state \<Rightarrow> event list" where
  "new_events st st' = drop (length (trace st)) (trace st')"

text \<open>
  \<^verbatim>\<open>compile_first\<close>: up to the first \<^verbatim>\<open>graph.compile\<close> the host has not run and
  \<^verbatim>\<open>HookModel\<close> has attached nothing. \<^verbatim>\<open>no_hook_before_compile\<close> asks the same of
  every hook, the increment hook included.
\<close>

fun compile_first :: "event list \<Rightarrow> bool" where
  "compile_first [] = True"
| "compile_first (Compile # es) = True"
| "compile_first (CallFn x # es) = False"
| "compile_first (HookModelEnter ps # es) = False"
| "compile_first (e # es) = compile_first es"

fun no_hook_before_compile :: "event list \<Rightarrow> bool" where
  "no_hook_before_compile [] = True"
| "no_hook_before_compile (Compile # es) = True"
| "no_hook_before_compile (CallFn x # es) = False"
| "no_hook_before_compile (HookModelEnter ps # es) = False"
| "no_hook_before_compile (RegisterIncrementHook h # es) = False"
| "no_hook_before_compile (e # es) = no_hook_before_compile es"

fun is_CallFn :: "event \<Rightarrow> bool" where
  "is_CallFn (CallFn x) = True"
| "is_CallFn e = False"

fun is_HookModelEnter :: "event \<Rightarrow> bool" where
  "is_HookModelEnter (HookModelEnter ps) = True"
| "is_HookModelEnter e = False"

fun is_Scan :: "event \<Rightarrow> bool" where
  "is_Scan (Scan x) = True"
| "is_Scan e = False"

fun is_LoadLocal :: "event \<Rightarrow> bool" where
  "is_LoadLocal (LoadLocal s) = True"
| "is_LoadLocal e = False"

fun is_ToMeta :: "event \<Rightarrow> bool" where
  "is_ToMeta (ToMeta b) = True"
| "is_ToMeta e = False"

fun is_Freeze :: "event \<Rightarrow> bool" where
  "is_Freeze (Freeze a) = True"
| "is_Freeze e = False"

text \<open>
  \<^verbatim>\<open>precedes x y evs\<close>: the event \<open>x\<close> occurs in \<open>evs\<close>, and \<open>y\<close> does not occur before
  its first occurrence.
\<close>

fun precedes :: "event \<Rightarrow> event \<Rightarrow> event list \<Rightarrow> bool" where
  "precedes x y [] = False"
| "precedes x y (e # es) = (if e = y then False else if e = x then True else precedes x y es)"

text \<open>The handles under which hooks are registered on the object behind a reference.\<close>

definition handles_on :: "state \<Rightarrow> nat \<Rightarrow> nat set" where
  "handles_on st a = (case objs st a of None \<Rightarrow> {} | Some ob \<Rightarrow> fst ` set (hooks ob))"

text \<open>The module tree behind a reference.\<close>

definition tree_at :: "state \<Rightarrow> nat \<Rightarrow> module option" where
  "tree_at st a = map_option tree (objs st a)"

text \<open>
  The spec's invariant of an edit, "\<^verbatim>\<open>revert\<close> undoes exactly the structural change
  \<^verbatim>\<open>apply\<close> made".
\<close>

definition reverts :: "env \<Rightarrow> edit \<Rightarrow> bool" where
  "reverts env e = (\<forall>t t'. Edit_edit env e t = Inr t' \<longrightarrow> Edit_revert env e t' = t)"

section \<open>A small host family\<close>

text \<open>
  One concrete implementation of the collaborators, on which the theorems below are
  instantiated: a two-module host, loading that succeeds, a wrapper edit that appends a
  child to the root module and is reverted by dropping it, a graph edit that leaves the
  tree alone.
\<close>

definition toy_host :: host_obj where
  "toy_host =
     \<lparr>tree = Module ''Net'' False None PyNone PyNone [\<lparr>requires_grad = True, device = Cpu\<rparr>]
         [(''layer0'', Module ''Linear'' False None PyNone PyNone
             [\<lparr>requires_grad = True, device = Cpu\<rparr>] [])],
      training = True, hooks = []\<rparr>"

fun toy_edit :: "edit \<Rightarrow> module \<Rightarrow> exn + module" where
  "toy_edit (WrapperModuleEdit path name w) t =
     (if path = [] then
        Inr (Module (class_name t) (wrapped t) (module_path t) (output_shape t) (tracer t)
               (tensors t) (named_children t @ [(name, w)]))
      else Inl (Exn ''AttributeError''))"
| "toy_edit (GraphEdit path g) t = Inr t"

fun toy_revert :: "edit \<Rightarrow> module \<Rightarrow> module" where
  "toy_revert (WrapperModuleEdit path name w) t =
     Module (class_name t) (wrapped t) (module_path t) (output_shape t) (tracer t)
       (tensors t) (butlast (named_children t))"
| "toy_revert (GraphEdit path g) t = t"

definition toy_env :: env where
  "toy_env =
     \<lparr>REPOID_TO_ALTERATION = (\<lambda>s. None),
      load_meta = (\<lambda>s ar kw. Inr toy_host),
      load_local = (\<lambda>s ar kw. Inr toy_host),
      prepare_inputs = (\<lambda>x. Inr x),
      example_input = Inr (PyStr ''_''),
      scan = (\<lambda>m x. Inr m),
      Graph_compile = (\<lambda>g m. Inr g),
      intervene = (\<lambda>activations path g direction. Inr (activations, g)),
      Edit_edit = toy_edit,
      Edit_revert = toy_revert,
      proxy_call = (\<lambda>g module_name node_name. Inr g)\<rparr>"

text \<open>The same family with a graph that does not compile, and with loading that fails.\<close>

definition toy_env_no_compile :: env where
  "toy_env_no_compile =
     toy_env\<lparr>Graph_compile := (\<lambda>g m. Inl (Exn ''MissingObservationPoint''))\<rparr>"

definition toy_env_no_load :: env where
  "toy_env_no_load = toy_env\<lparr>load_local := (\<lambda>s ar kw. Inl (Exn ''OSError''))\<rparr>"

text \<open>A host run that returns its inputs, and one that raises.\<close>

definition toy_fn :: host_fn where
  "toy_fn inputs fargs fkwargs ob g = (Inr inputs, g)"

definition toy_fn_raises :: host_fn where
  "toy_fn_raises inputs fargs fkwargs ob g = (Inl (Exn ''RuntimeError''), g)"

definition toy_graph :: graph where
  "toy_graph =
     \<lparr>argument_node_names = [(''layer0.output.0'', [''a''])], nodes = [(''a'', None)],
      iteration_counter = 0\<rparr>"

text \<open>
  A world with one torch module in it, and the model objects the constructor makes of
  that module and of a repo id.
\<close>

definition toy_world :: state where
  "toy_world =
     \<lparr>repoid_path_clsname = [], args = [], kwargs = [], alter = False, dispatched = False,
      custom_model = False, meta_model = None, tokenizer = PyNone, local_model = None,
      edits = [], objs = (\<lambda>a. None)(0 := Some toy_host), next_obj = 1, next_handle = 0,
      trace = []\<rparr>"

definition toy_custom :: state where
  "toy_custom = snd (init toy_env (Inr 0) [] [] True PyNone toy_world)"

definition toy_repo :: state where
  "toy_repo = snd (init toy_env (Inl ''gpt2'') [] [] True PyNone toy_world)"

text \<open>A module of the mirror to modulize: the root, and the wrapper edit made for it.\<close>

definition toy_ref :: module_ref where
  "toy_ref = \<lparr>ref_path = [], ref_tracer = PyNone, ref_output_shape = PyNone, ref_graph = toy_graph\<rparr>"

definition toy_wme :: edit where
  "toy_wme = new_wrapper_edit toy_ref ''w''"

text \<open>The same family with a graph in which the node to modulize is missing.\<close>

definition toy_env_no_proxy :: env where
  "toy_env_no_proxy =
     toy_env\<lparr>proxy_call := (\<lambda>g module_name node_name. Inl (Exn ''KeyError''))\<rparr>"

text \<open>The model object after \<^verbatim>\<open>modulize\<close> of the root module.\<close>

definition toy_modulized :: state where
  "toy_modulized = snd (modulize toy_env toy_ref ''a'' ''w'' toy_custom)"

section \<open>The lifetime of a model object\<close>

text \<open>
  The arguments of one \<^verbatim>\<open>__call__\<close>, with the collaborators as they behave at that
  time (loading reads a disk or a network), and the calls made on a model object one
  after another: the caller who catches the exception of one call goes on with the
  object as that call left it.
\<close>

record call_args =
  ca_env :: env
  ca_fn :: host_fn
  ca_inputs :: pyval
  ca_graph :: graph
  ca_args :: "pyval list"
  ca_edits :: "edit list option"
  ca_inference :: bool
  ca_kwargs :: "(string \<times> pyval) list"

definition call_with :: "call_args \<Rightarrow> state \<Rightarrow> (exn + pyval) \<times> state \<times> graph" where
  "call_with c st =
     call (ca_env c) (ca_fn c) (ca_inputs c) (ca_graph c) (ca_args c) (ca_edits c)
       (ca_inference c) (ca_kwargs c) st"

fun calls :: "call_args list \<Rightarrow> state \<Rightarrow> state" where
  "calls [] st = st"
| "calls (c # cs) st = calls cs (fst (snd (call_with c st)))"

definition toy_call :: "env \<Rightarrow> call_args" where
  "toy_call env =
     \<lparr>ca_env = env, ca_fn = toy_fn, ca_inputs = PyInt 1, ca_graph = toy_graph, ca_args = [],
      ca_edits = None, ca_inference = True, ca_kwargs = []\<rparr>"

section \<open>Properties of the string operations\<close>

lemma split_not_Nil: "split c s \<noteq> []"
  by (induction s) (auto simp: Let_def)

lemma join_split: "join c (split c s) = s"
proof (induction s)
  case Nil
  then show ?case by simp
next
  case (Cons x xs)
  obtain w ws where r: "split c xs = w # ws"
    using split_not_Nil [of c xs] by (cases "split c xs") auto
  show ?case
  proof (cases "x = c")
    case True
    with Cons r show ?thesis by simp
  next
    case False
    with Cons r show ?thesis by (cases ws) (auto simp: Let_def)
  qed
qed

lemma split_no_sep: "c \<notin> set s \<Longrightarrow> split c s = [s]"
  by (induction s) (auto simp: Let_def)

lemma split_append_sep: "split c (p @ c # s) = split c p @ split c s"
proof (induction p)
  case Nil
  then show ?case
    using split_not_Nil [of c s] by (cases "split c s") auto
next
  case (Cons x xs)
  obtain w ws where r: "split c xs = w # ws"
    using split_not_Nil [of c xs] by (cases "split c xs") auto
  with Cons show ?case by (auto simp: Let_def)
qed

section \<open>Basic facts about the state\<close>

lemma emit_simps:
  "trace (emit e st) = trace st @ [e]"
  "objs (emit e st) = objs st"
  "local_model (emit e st) = local_model st"
  "meta_model (emit e st) = meta_model st"
  "dispatched (emit e st) = dispatched st"
  "custom_model (emit e st) = custom_model st"
  "edits (emit e st) = edits st"
  "next_obj (emit e st) = next_obj st"
  "next_handle (emit e st) = next_handle st"
  by (simp_all add: emit_def)

lemma emits_simps:
  "trace (emits es st) = trace st @ es"
  "objs (emits es st) = objs st"
  "local_model (emits es st) = local_model st"
  "meta_model (emits es st) = meta_model st"
  "dispatched (emits es st) = dispatched st"
  "custom_model (emits es st) = custom_model st"
  "edits (emits es st) = edits st"
  "next_obj (emits es st) = next_obj st"
  "next_handle (emits es st) = next_handle st"
  by (simp_all add: emits_def)

lemma upd_obj_simps:
  "trace (upd_obj a f st) = trace st"
  "objs (upd_obj a f st) = (objs st)(a := map_option f (objs st a))"
  "local_model (upd_obj a f st) = local_model st"
  "meta_model (upd_obj a f st) = meta_model st"
  "dispatched (upd_obj a f st) = dispatched st"
  "custom_model (upd_obj a f st) = custom_model st"
  "edits (upd_obj a f st) = edits st"
  "next_obj (upd_obj a f st) = next_obj st"
  "next_handle (upd_obj a f st) = next_handle st"
  by (simp_all add: upd_obj_def)

lemmas st_simps = emit_simps emits_simps upd_obj_simps

text \<open>Unfolding everything evaluates the model on the small host family.\<close>

lemmas model_defs =
  init_def init_fields_def build_meta_def mirror_source_def run_scan_def loading_patcher_def
  alteration_def emit_def emits_def alloc_def upd_obj_def upd_tree_def upd_hooks_def
  set_training_def call_def dispatch_def with_Editor_def Editor_enter_def Editor_exit_def
  run_body_def hooked_run_def HookModel_enter_def HookModel_exit_def
  register_increment_hook_def remove_handle_def graph_modules_def module_of_name_def
  slice_to_minus2_def Module_wrap_def wrap_children_def submodule_prefix_def new_events_def
  handles_on_def tree_at_def modulize_def new_wrapper_edit_def Let_def

lemmas toy_defs =
  toy_custom_def toy_repo_def toy_world_def toy_env_def toy_env_no_compile_def
  toy_env_no_load_def toy_host_def toy_graph_def toy_fn_def toy_fn_raises_def
  toy_ref_def toy_wme_def toy_env_no_proxy_def toy_modulized_def toy_call_def call_with_def

section \<open>Parameters are frozen when the local model is dispatched\<close>




section \<open>The increment hook\<close>

text \<open>
  Claim C5. Every firing of the increment hook that \<^verbatim>\<open>__call__\<close> registers is one call
  of \<^verbatim>\<open>graph.increment()\<close> and nothing else: the callback returns \<^verbatim>\<open>None\<close>, so the
  output of the hooked module is not replaced, the graph's iteration counter advances by
  exactly one and nothing else in the graph changes; over any sequence of firings the
  counter advances by the number of firings.
\<close>

theorem increment_hook_advances_counter:
  "increment_hook m inp outp g = (PyNone, Graph_increment g) \<and>
   Graph_increment g = g\<lparr>iteration_counter := iteration_counter g + 1\<rparr> \<and>
   foldl (\<lambda>x firing. snd (increment_hook (fst firing) (fst (snd firing)) (snd (snd firing)) x))
     g firings
   = g\<lparr>iteration_counter := iteration_counter g + int (length firings)\<rparr>"
proof -
  have "foldl (\<lambda>x firing. snd (increment_hook (fst firing) (fst (snd firing)) (snd (snd firing)) x))
          g firings
        = g\<lparr>iteration_counter := iteration_counter g + int (length firings)\<rparr>"
    by (induction firings arbitrary: g) (simp_all add: increment_hook_def Graph_increment_def)
  then show ?thesis
    by (simp add: increment_hook_def Graph_increment_def)
qed

section \<open>The hooks the host run sees\<close>

lemma module_of_name_drops_two:
  assumes "CHR ''.'' \<notin> set c" and "CHR ''.'' \<notin> set d"
  shows "module_of_name (p @ ''.'' @ c @ ''.'' @ d) = p"
proof -
  have "split (CHR ''.'') (p @ CHR ''.'' # c @ CHR ''.'' # d) = split (CHR ''.'') p @ [c, d]"
    using assms by (simp add: split_append_sep split_no_sep)
  then show ?thesis
    by (simp add: module_of_name_def slice_to_minus2_def join_split)
qed

lemma attach_hooks:
  "map snd (attach ih oh ps n) = concat (map (\<lambda>p. [InputHook p ih, OutputHook p oh]) ps)"
  by (induction ps arbitrary: n) simp_all

lemma attach_handles: "map fst (attach ih oh ps n) = [n ..< n + 2 * length ps]"
proof (induction ps arbitrary: n)
  case Nil
  then show ?case by simp
next
  case (Cons p ps)
  have "[n ..< n + 2 * length (p # ps)] = n # Suc n # [Suc (Suc n) ..< Suc (Suc n) + 2 * length ps]"
    by (simp add: upt_rec)
  with Cons show ?case by simp
qed

lemma set_graph_modules:
  "set (graph_modules g) = module_of_name ` fst ` set (argument_node_names g)"
  by (simp add: graph_modules_def image_image)

lemma dispatch_dispatched: "dispatched st \<Longrightarrow> dispatch env st = (Inr (), st)"
  by (simp add: dispatch_def)

text \<open>
  When the dispatch block completes, the edits apply, the graph compiles and the inputs
  are prepared, the outcome of \<^verbatim>\<open>__call__\<close> is the outcome of \<^verbatim>\<open>fn\<close> on the edited
  host, in the requested mode, with the increment hook and the hooks of \<^verbatim>\<open>HookModel\<close>
  added to the hooks it had.
\<close>

lemma call_runs_fn:
  assumes "dispatch env st = (Inr u, st1)"
    and "local_model st1 = Some a" and "objs st1 a = Some ob"
    and "apply_edits env (case eds of None \<Rightarrow> edits st | Some given \<Rightarrow> given) (tree ob)
           = (applied, None, t)"
    and "Graph_compile env g t = Inr g1"
    and "prepare_inputs env inputs = Inr inputs'"
    and "call env fn inputs g fargs eds inference fkwargs st = (r, st', g')"
  shows "(r, g') =
           fn inputs' fargs fkwargs
             (ob\<lparr>tree := t, training := (\<not> inference),
                 hooks := hooks ob @ (next_handle st1, ForwardHook increment_hook) #
                            attach (input_hook env) (output_hook env) (graph_modules g)
                              (Suc (next_handle st1))\<rparr>)
             g1"
  using assms
  by (auto simp: call_def with_Editor_def Editor_enter_def run_body_def
        hooked_run_def HookModel_enter_def register_increment_hook_def set_training_def
        upd_tree_def upd_hooks_def st_simps Let_def
        split: prod.splits sum.splits option.splits)

text \<open>
  Claim C4. In a call of \<^verbatim>\<open>__call__\<close> with graph \<open>g\<close> that gets as far as running the
  host, \<^verbatim>\<open>fn\<close> runs on the host with the hooks \<^verbatim>\<open>HookModel\<close> installed for the list
  \<^verbatim>\<open>graph_modules g\<close>: one input hook and one output hook for each of its paths and
  none for any other path. That list has no duplicates and its elements are exactly the
  keys of \<^verbatim>\<open>g.argument_node_names\<close> with their last two dot-separated components
  dropped. The input hook is \<^verbatim>\<open>intervene(activations, module_path, g, "input")\<close>, the
  output hook the same with \<^verbatim>\<open>"output"\<close>.
\<close>

theorem call_hooks_graph_modules:
  assumes "dispatch env st = (Inr u, st1)"
    and "local_model st1 = Some a" and "objs st1 a = Some ob"
    and "apply_edits env (case eds of None \<Rightarrow> edits st | Some given \<Rightarrow> given) (tree ob)
           = (applied, None, t)"
    and "Graph_compile env g t = Inr g1"
    and "prepare_inputs env inputs = Inr inputs'"
    and "call env fn inputs g fargs eds inference fkwargs st = (r, st', g')"
  shows "(\<exists>seen.
            (r, g') = fn inputs' fargs fkwargs seen g1 \<and>
            map snd (hooks seen) =
              map snd (hooks ob) @ ForwardHook increment_hook #
                concat (map (\<lambda>p. [InputHook p (input_hook env), OutputHook p (output_hook env)])
                          (graph_modules g))) \<and>
         distinct (graph_modules g) \<and>
         set (graph_modules g) = module_of_name ` fst ` set (argument_node_names g) \<and>
         (\<forall>p c d. CHR ''.'' \<notin> set c \<and> CHR ''.'' \<notin> set d \<longrightarrow>
            module_of_name (p @ ''.'' @ c @ ''.'' @ d) = p) \<and>
         (\<forall>activations path x.
            input_hook env activations path x = intervene env activations path x ''input'') \<and>
         (\<forall>activations path x.
            output_hook env activations path x = intervene env activations path x ''output'')"
proof -
  let ?seen = "ob\<lparr>tree := t, training := (\<not> inference),
                 hooks := hooks ob @ (next_handle st1, ForwardHook increment_hook) #
                            attach (input_hook env) (output_hook env) (graph_modules g)
                              (Suc (next_handle st1))\<rparr>"
  have "(r, g') = fn inputs' fargs fkwargs ?seen g1"
    using assms by (rule call_runs_fn)
  moreover have "map snd (hooks ?seen) =
      map snd (hooks ob) @ ForwardHook increment_hook #
        concat (map (\<lambda>p. [InputHook p (input_hook env), OutputHook p (output_hook env)])
                  (graph_modules g))"
    by (simp add: attach_hooks)
  ultimately have "\<exists>seen.
      (r, g') = fn inputs' fargs fkwargs seen g1 \<and>
      map snd (hooks seen) =
        map snd (hooks ob) @ ForwardHook increment_hook #
          concat (map (\<lambda>p. [InputHook p (input_hook env), OutputHook p (output_hook env)])
                    (graph_modules g))"
    by blast
  moreover have "distinct (graph_modules g)"
    by (simp add: graph_modules_def)
  moreover have "\<forall>p c d. CHR ''.'' \<notin> set c \<and> CHR ''.'' \<notin> set d \<longrightarrow>
      module_of_name (p @ ''.'' @ c @ ''.'' @ d) = p"
    using module_of_name_drops_two by blast
  ultimately show ?thesis
    by (simp add: set_graph_modules input_hook_def output_hook_def)
qed

theorem call_hooks_graph_modules_witness:
  "dispatch toy_env toy_custom = (Inr (), toy_custom) \<and> local_model toy_custom = Some 0 \<and>
   objs toy_custom 0 = Some toy_host \<and>
   apply_edits toy_env (edits toy_custom) (tree toy_host) = ([], None, tree toy_host) \<and>
   Graph_compile toy_env toy_graph (tree toy_host) = Inr toy_graph \<and>
   prepare_inputs toy_env (PyInt 1) = Inr (PyInt 1) \<and>
   (\<exists>seen.
      (fst (call toy_env toy_fn (PyInt 1) toy_graph [] None True [] toy_custom),
       snd (snd (call toy_env toy_fn (PyInt 1) toy_graph [] None True [] toy_custom)))
        = toy_fn (PyInt 1) [] [] seen toy_graph \<and>
      map snd (hooks seen) =
        [ForwardHook increment_hook, InputHook ''layer0'' (input_hook toy_env),
         OutputHook ''layer0'' (output_hook toy_env)]) \<and>
   set (graph_modules toy_graph) = {''layer0''} \<and>
   module_of_name ''layer0.output.0'' = ''layer0''"
proof -
  have d: "dispatched toy_custom"
    by (simp add: toy_defs model_defs)
  have h1: "dispatch toy_env toy_custom = (Inr (), toy_custom)"
    using d by (rule dispatch_dispatched)
  have h2: "local_model toy_custom = Some 0"
    by (simp add: toy_defs model_defs)
  have h3: "objs toy_custom 0 = Some toy_host"
    by (simp add: toy_defs model_defs)
  have e: "edits toy_custom = []"
    by (simp add: toy_defs model_defs)
  have h4: "apply_edits toy_env (case None of None \<Rightarrow> edits toy_custom | Some given \<Rightarrow> given)
              (tree toy_host) = ([], None, tree toy_host)"
    by (simp add: e)
  have h5: "Graph_compile toy_env toy_graph (tree toy_host) = Inr toy_graph"
    by (simp add: toy_env_def)
  have h6: "prepare_inputs toy_env (PyInt 1) = Inr (PyInt 1)"
    by (simp add: toy_env_def)
  have h7: "call toy_env toy_fn (PyInt 1) toy_graph [] None True [] toy_custom =
      (fst (call toy_env toy_fn (PyInt 1) toy_graph [] None True [] toy_custom),
       fst (snd (call toy_env toy_fn (PyInt 1) toy_graph [] None True [] toy_custom)),
       snd (snd (call toy_env toy_fn (PyInt 1) toy_graph [] None True [] toy_custom)))"
    by simp
  have m: "graph_modules toy_graph = [''layer0'']"
    by (simp add: toy_defs model_defs)
  have hk: "hooks toy_host = []"
    by (simp add: toy_host_def)
  note c = call_hooks_graph_modules [OF h1 h2 h3 h4 h5 h6 h7]
  have n: "module_of_name ''layer0.output.0'' = ''layer0''"
    using c by (simp add: module_of_name_def slice_to_minus2_def)
  from c h1 h2 h3 h4 h5 h6 n show ?thesis
    by (simp add: m hk e)
qed

section \<open>Compilation comes before the host run\<close>

lemma compile_first_EditApply [simp]:
  "compile_first (map EditApply xs @ ys) = compile_first ys"
  by (induction xs) simp_all

lemma compile_first_EditRevert [simp]:
  "compile_first (map EditRevert xs @ ys) = compile_first ys"
  by (induction xs) simp_all

lemma compile_first_EditRevert_only [simp]:
  "compile_first (map EditRevert xs)"
  by (induction xs) simp_all

lemma call_compile_first:
  assumes "call env fn inputs g fargs eds inference fkwargs st = (r, st', g')"
  shows "compile_first (new_events st st')"
  using assms
  by (auto simp: call_def dispatch_def with_Editor_def Editor_enter_def Editor_exit_def
        run_body_def hooked_run_def HookModel_enter_def HookModel_exit_def
        register_increment_hook_def remove_handle_def set_training_def alloc_def
        upd_tree_def upd_hooks_def st_simps Let_def new_events_def
        split: prod.splits sum.splits option.splits if_splits)

lemma call_compile_fails:
  assumes "call env fn inputs g fargs eds inference fkwargs st = (r, st', g')"
    and "dispatch env st = (Inr u, st1)"
    and "local_model st1 = Some a" and "objs st1 a = Some ob"
    and "apply_edits env (case eds of None \<Rightarrow> edits st | Some given \<Rightarrow> given) (tree ob)
           = (applied, None, t)"
    and "Graph_compile env g t = Inl e"
  shows "r = Inl e \<and> g' = g \<and>
         trace st' =
           trace st1 @ EditorEnter # map EditApply applied @
             [RegisterIncrementHook (next_handle st1), Compile] @
             map EditRevert (rev (case eds of None \<Rightarrow> edits st | Some given \<Rightarrow> given)) @
             [EditorExit]"
  using assms
  by (auto simp: call_def with_Editor_def Editor_enter_def Editor_exit_def run_body_def
        register_increment_hook_def upd_tree_def upd_hooks_def st_simps Let_def new_events_def
        split: prod.splits sum.splits option.splits)

lemma dispatch_new_events:
  assumes "dispatch env st = (r, st1)"
  shows "\<exists>evs. trace st1 = trace st @ evs \<and>
           (\<forall>ev \<in> set evs. \<not> is_CallFn ev \<and> \<not> is_HookModelEnter ev \<and> ev \<noteq> Compile)"
  using assms
  by (auto simp: dispatch_def alloc_def upd_tree_def st_simps Let_def
        split: prod.splits sum.splits if_splits)

text \<open>
  Claim C3, as stated, fails. On the small host family with a graph that does not
  compile, the call ends with the compile error, but the increment hook was attached
  before \<^verbatim>\<open>graph.compile\<close> was invoked (\<^verbatim>\<open>RegisterIncrementHook\<close> precedes
  \<^verbatim>\<open>Compile\<close> in the trace), and it is still registered on the host when the error
  reaches the caller.
\<close>

theorem hook_attached_before_compile_counterexample:
  "fst (call toy_env_no_compile toy_fn (PyInt 1) toy_graph [] None True [] toy_custom)
     = Inl (Exn ''MissingObservationPoint'') \<and>
   new_events toy_custom
     (fst (snd (call toy_env_no_compile toy_fn (PyInt 1) toy_graph [] None True [] toy_custom)))
     = [EditorEnter, RegisterIncrementHook 0, Compile, EditorExit] \<and>
   \<not> no_hook_before_compile
     (new_events toy_custom
       (fst (snd (call toy_env_no_compile toy_fn (PyInt 1) toy_graph [] None True [] toy_custom)))) \<and>
   handles_on toy_custom 0 = {} \<and>
   handles_on
     (fst (snd (call toy_env_no_compile toy_fn (PyInt 1) toy_graph [] None True [] toy_custom))) 0
     = {0}"
  by (simp add: toy_defs model_defs)

text \<open>
  Claim C3, amended. In every execution of \<^verbatim>\<open>__call__\<close>, \<^verbatim>\<open>graph.compile\<close> is
  invoked before \<^verbatim>\<open>fn\<close> runs and before \<^verbatim>\<open>HookModel\<close> attaches the input and output
  hooks. When the dispatch block has completed, the edits have applied and
  \<^verbatim>\<open>graph.compile\<close> raises, the exception reaches the caller, the graph is as it was
  passed, and in the whole call \<^verbatim>\<open>fn\<close> was never run and \<^verbatim>\<open>HookModel\<close> never
  entered.
\<close>

theorem compile_precedes_host_run:
  assumes "call env fn inputs g fargs eds inference fkwargs st = (r, st', g')"
  shows "compile_first (new_events st st') \<and>
         (\<forall>u st1 a ob applied t e.
            dispatch env st = (Inr u, st1) \<and> local_model st1 = Some a \<and>
            objs st1 a = Some ob \<and>
            apply_edits env (case eds of None \<Rightarrow> edits st | Some given \<Rightarrow> given) (tree ob)
              = (applied, None, t) \<and>
            Graph_compile env g t = Inl e \<longrightarrow>
            r = Inl e \<and> g' = g \<and>
            \<not> list_ex is_CallFn (new_events st st') \<and>
            \<not> list_ex is_HookModelEnter (new_events st st'))"
proof (intro conjI allI impI)
  show "compile_first (new_events st st')"
    using assms by (rule call_compile_first)
next
  fix u st1 a ob applied t e
  assume h: "dispatch env st = (Inr u, st1) \<and> local_model st1 = Some a \<and>
            objs st1 a = Some ob \<and>
            apply_edits env (case eds of None \<Rightarrow> edits st | Some given \<Rightarrow> given) (tree ob)
              = (applied, None, t) \<and>
            Graph_compile env g t = Inl e"
  let ?es = "case eds of None \<Rightarrow> edits st | Some given \<Rightarrow> given"
  from h have c: "r = Inl e \<and> g' = g \<and>
         trace st' =
           trace st1 @ EditorEnter # map EditApply applied @
             [RegisterIncrementHook (next_handle st1), Compile] @
             map EditRevert (rev ?es) @ [EditorExit]"
    using call_compile_fails [OF assms, of u st1 a ob applied t e] by blast
  from h obtain evs where d: "trace st1 = trace st @ evs"
    and q: "\<forall>ev \<in> set evs. \<not> is_CallFn ev \<and> \<not> is_HookModelEnter ev \<and> ev \<noteq> Compile"
    using dispatch_new_events [of env st "Inr u" st1] by blast
  from c d have n: "new_events st st' =
      evs @ EditorEnter # map EditApply applied @
        [RegisterIncrementHook (next_handle st1), Compile] @
        map EditRevert (rev ?es) @ [EditorExit]"
    by (simp add: new_events_def)
  show "r = Inl e" using c by simp
  show "g' = g" using c by simp
  show "\<not> list_ex is_CallFn (new_events st st')"
    using n q by (auto simp: list_ex_iff)
  show "\<not> list_ex is_HookModelEnter (new_events st st')"
    using n q by (auto simp: list_ex_iff)
qed

theorem compile_precedes_host_run_witness:
  "compile_first
     (new_events toy_custom
       (fst (snd (call toy_env_no_compile toy_fn (PyInt 1) toy_graph [] None True [] toy_custom)))) \<and>
   dispatch toy_env_no_compile toy_custom = (Inr (), toy_custom) \<and>
   local_model toy_custom = Some 0 \<and> objs toy_custom 0 = Some toy_host \<and>
   apply_edits toy_env_no_compile (edits toy_custom) (tree toy_host) = ([], None, tree toy_host) \<and>
   Graph_compile toy_env_no_compile toy_graph (tree toy_host)
     = Inl (Exn ''MissingObservationPoint'') \<and>
   fst (call toy_env_no_compile toy_fn (PyInt 1) toy_graph [] None True [] toy_custom)
     = Inl (Exn ''MissingObservationPoint'') \<and>
   \<not> list_ex is_CallFn
     (new_events toy_custom
       (fst (snd (call toy_env_no_compile toy_fn (PyInt 1) toy_graph [] None True [] toy_custom))))"
proof -
  let ?c = "call toy_env_no_compile toy_fn (PyInt 1) toy_graph [] None True [] toy_custom"
  have h0: "?c = (fst ?c, fst (snd ?c), snd (snd ?c))"
    by simp
  have d: "dispatched toy_custom"
    by (simp add: toy_defs model_defs)
  have h1: "dispatch toy_env_no_compile toy_custom = (Inr (), toy_custom)"
    using d by (rule dispatch_dispatched)
  have h2: "local_model toy_custom = Some 0"
    by (simp add: toy_defs model_defs)
  have h3: "objs toy_custom 0 = Some toy_host"
    by (simp add: toy_defs model_defs)
  have e: "edits toy_custom = []"
    by (simp add: toy_defs model_defs)
  have h4: "apply_edits toy_env_no_compile
              (case None of None \<Rightarrow> edits toy_custom | Some given \<Rightarrow> given) (tree toy_host)
            = ([], None, tree toy_host)"
    by (simp add: e)
  have h5: "Graph_compile toy_env_no_compile toy_graph (tree toy_host)
            = Inl (Exn ''MissingObservationPoint'')"
    by (simp add: toy_env_no_compile_def)
  note c = compile_precedes_host_run [OF h0]
  from c h1 h2 h3 h4 h5 have
    "fst ?c = Inl (Exn ''MissingObservationPoint'') \<and>
     \<not> list_ex is_CallFn (new_events toy_custom (fst (snd ?c)))"
    by blast
  with c h1 h2 h3 h4 h5 show ?thesis
    by (simp add: e)
qed

section \<open>The editor scope\<close>

lemma apply_edits_all: "apply_edits env es t = (applied, None, t') \<Longrightarrow> applied = es"
  by (induction es arbitrary: t applied t') (auto split: sum.splits prod.splits)

lemma apply_edits_prefix: "apply_edits env es t = (applied, r, t') \<Longrightarrow> \<exists>rest. es = applied @ rest"
  by (induction es arbitrary: t applied t' r) (auto split: sum.splits prod.splits)

lemma apply_then_revert:
  assumes "\<forall>e \<in> set es. reverts env e" and "apply_edits env es t = (applied, r, t')"
  shows "revert_edits env applied t' = t"
  using assms
proof (induction es arbitrary: t applied t' r)
  case Nil
  then show ?case by simp
next
  case (Cons e es)
  show ?case
  proof (cases "Edit_edit env e t")
    case (Inl x)
    with Cons.prems show ?thesis by simp
  next
    case (Inr t1)
    obtain ap r1 t2 where a: "apply_edits env es t1 = (ap, r1, t2)"
      by (cases "apply_edits env es t1") auto
    with Inr Cons.prems have b: "applied = e # ap" "t' = t2" by simp_all
    from Cons.prems have rv: "\<forall>e \<in> set es. reverts env e" by simp
    have "revert_edits env ap t2 = t1" using rv a by (rule Cons.IH)
    moreover from Cons.prems Inr have "Edit_revert env e t1 = t"
      by (simp add: reverts_def)
    ultimately show ?thesis using b by simp
  qed
qed

lemma hooked_run_tree:
  assumes "hooked_run env fn inputs fargs fkwargs inference a ms g st = (r, st', g')"
  shows "tree_at st' b = tree_at st b"
  using assms
  by (auto simp: hooked_run_def HookModel_enter_def HookModel_exit_def upd_hooks_def
        st_simps Let_def tree_at_def split: prod.splits option.splits)

lemma run_body_tree:
  assumes "run_body env fn inputs fargs fkwargs inference a g st = (r, st', g')"
  shows "tree_at st' b = tree_at st b"
  using assms
  by (auto simp: run_body_def register_increment_hook_def remove_handle_def set_training_def
        upd_hooks_def st_simps Let_def tree_at_def
        split: prod.splits option.splits sum.splits dest!: hooked_run_tree [where b = b])

lemma run_body_trace:
  assumes "run_body env fn inputs fargs fkwargs inference a g st = (r, st', g')"
  shows "\<exists>body. trace st' = trace st @ RegisterIncrementHook (next_handle st) # Compile # body"
  using assms
  by (auto simp: run_body_def hooked_run_def HookModel_enter_def HookModel_exit_def
        register_increment_hook_def remove_handle_def set_training_def
        upd_hooks_def st_simps Let_def
        split: prod.splits option.splits sum.splits)

lemma with_Editor_clean:
  assumes "with_Editor env a es (run_body env fn inputs fargs fkwargs inference a) g st1 = (r, st', g')"
    and "objs st1 a = Some ob"
    and "\<forall>e \<in> set es. reverts env e"
  shows "tree_at st' a = Some (tree ob)"
proof (cases "apply_edits env es (tree ob)")
  case (fields applied x t)
  show ?thesis
  proof (cases x)
    case (Some ex)
    with fields assms show ?thesis
      using apply_then_revert [OF assms(3) fields]
      by (auto simp: with_Editor_def Editor_enter_def upd_tree_def st_simps tree_at_def)
  next
    case None
    with fields have ap: "applied = es" by (simp add: apply_edits_all)
    let ?s = "emits (EditorEnter # map EditApply applied) (upd_tree a (\<lambda>old. t) st1)"
    obtain r2 st2 g2 where b: "run_body env fn inputs fargs fkwargs inference a g ?s = (r2, st2, g2)"
      by (cases "run_body env fn inputs fargs fkwargs inference a g ?s") auto
    from run_body_tree [OF b, of a] assms(2) have "tree_at st2 a = Some t"
      by (simp add: tree_at_def upd_tree_def st_simps)
    moreover from assms None fields b have "st' = Editor_exit env a es st2"
      by (simp add: with_Editor_def Editor_enter_def)
    moreover have "revert_edits env es t = tree ob"
      using apply_then_revert [OF assms(3) fields] ap by simp
    ultimately show ?thesis
      by (auto simp: Editor_exit_def upd_tree_def st_simps tree_at_def)
  qed
qed

lemma with_Editor_entered:
  assumes "with_Editor env a es (run_body env fn inputs fargs fkwargs inference a) g st1 = (r, st', g')"
    and "objs st1 a = Some ob"
    and "apply_edits env es (tree ob) = (applied, None, t)"
  shows "\<exists>body. trace st' =
           trace st1 @ EditorEnter # map EditApply es @
             RegisterIncrementHook (next_handle st1) # Compile # body @
             map EditRevert (rev es) @ [EditorExit]"
proof -
  from assms(3) have ap: "applied = es" by (rule apply_edits_all)
  let ?s = "emits (EditorEnter # map EditApply applied) (upd_tree a (\<lambda>old. t) st1)"
  obtain r2 st2 g2 where b: "run_body env fn inputs fargs fkwargs inference a g ?s = (r2, st2, g2)"
    by (cases "run_body env fn inputs fargs fkwargs inference a g ?s") auto
  from run_body_trace [OF b] obtain body where
    "trace st2 = trace ?s @ RegisterIncrementHook (next_handle ?s) # Compile # body"
    by blast
  moreover from assms b have "st' = Editor_exit env a es st2"
    by (simp add: with_Editor_def Editor_enter_def)
  ultimately have "trace st' =
           trace st1 @ EditorEnter # map EditApply es @
             RegisterIncrementHook (next_handle st1) # Compile # body @
             map EditRevert (rev es) @ [EditorExit]"
    using ap by (simp add: Editor_exit_def upd_tree_def st_simps)
  then show ?thesis by blast
qed

lemma with_Editor_not_entered:
  assumes "with_Editor env a es body g st1 = (r, st', g')"
    and "objs st1 a = Some ob"
    and "apply_edits env es (tree ob) = (applied, Some x, t)"
  shows "r = Inl x \<and> g' = g \<and>
         trace st' = trace st1 @ EditorEnter # map EditApply applied @ map EditRevert (rev applied)"
  using assms by (auto simp: with_Editor_def Editor_enter_def upd_tree_def st_simps)

lemma call_after_dispatch:
  assumes "call env fn inputs g fargs eds inference fkwargs st = (r, st', g')"
    and "dispatch env st = (Inr u, st1)" and "local_model st1 = Some a"
  shows "with_Editor env a (case eds of None \<Rightarrow> edits st | Some given \<Rightarrow> given)
           (run_body env fn inputs fargs fkwargs inference a) g st1 = (r, st', g')"
  using assms by (simp add: call_def Let_def)

lemma reverts_toy_wrapper: "reverts toy_env (WrapperModuleEdit [] name w)"
  by (auto simp: reverts_def toy_env_def)

text \<open>
  Claim C2. In every execution of \<^verbatim>\<open>__call__\<close> that gets past the dispatch block, the
  edits (the \<^verbatim>\<open>edits\<close> argument, or \<^verbatim>\<open>self.edits\<close> when it is \<^verbatim>\<open>None\<close>) are
  applied to the host on entering the editor scope and reverted, in reverse order, on
  leaving it. Provided each edit's \<^verbatim>\<open>revert\<close> undoes its \<^verbatim>\<open>apply\<close>, the host's module
  tree after the call is the tree it had before the scope, whatever the outcome of the
  call. When the scope is entered, graph compilation and everything after it lie between
  the application of the edits and their reversal; when applying an edit raises, the
  edits applied so far are reverted and the exception goes to the caller. The dispatch
  block before the scope neither compiles nor runs the host.
\<close>

theorem call_leaves_host_structure_clean:
  assumes "call env fn inputs g fargs eds inference fkwargs st = (r, st', g')"
    and "dispatch env st = (Inr u, st1)"
    and "local_model st1 = Some a" and "objs st1 a = Some ob"
    and "\<forall>e \<in> set (case eds of None \<Rightarrow> edits st | Some given \<Rightarrow> given). reverts env e"
  shows "tree_at st' a = Some (tree ob) \<and>
         (\<forall>applied t.
            apply_edits env (case eds of None \<Rightarrow> edits st | Some given \<Rightarrow> given) (tree ob)
              = (applied, None, t) \<longrightarrow>
            (\<exists>body. trace st' =
               trace st1 @ EditorEnter #
                 map EditApply (case eds of None \<Rightarrow> edits st | Some given \<Rightarrow> given) @
                 RegisterIncrementHook (next_handle st1) # Compile # body @
                 map EditRevert (rev (case eds of None \<Rightarrow> edits st | Some given \<Rightarrow> given)) @
                 [EditorExit])) \<and>
         (\<forall>applied x t.
            apply_edits env (case eds of None \<Rightarrow> edits st | Some given \<Rightarrow> given) (tree ob)
              = (applied, Some x, t) \<longrightarrow>
            r = Inl x \<and>
            trace st' =
              trace st1 @ EditorEnter # map EditApply applied @ map EditRevert (rev applied)) \<and>
         (\<exists>evs. trace st1 = trace st @ evs \<and>
            (\<forall>ev \<in> set evs. \<not> is_CallFn ev \<and> \<not> is_HookModelEnter ev \<and> ev \<noteq> Compile))"
proof -
  let ?es = "case eds of None \<Rightarrow> edits st | Some given \<Rightarrow> given"
  have w: "with_Editor env a ?es (run_body env fn inputs fargs fkwargs inference a) g st1
             = (r, st', g')"
    using assms(1-3) by (rule call_after_dispatch)
  have "tree_at st' a = Some (tree ob)"
    using w assms(4,5) by (rule with_Editor_clean)
  moreover have "\<forall>applied t. apply_edits env ?es (tree ob) = (applied, None, t) \<longrightarrow>
      (\<exists>body. trace st' =
         trace st1 @ EditorEnter # map EditApply ?es @
           RegisterIncrementHook (next_handle st1) # Compile # body @
           map EditRevert (rev ?es) @ [EditorExit])"
    using with_Editor_entered [OF w assms(4)] by blast
  moreover have "\<forall>applied x t. apply_edits env ?es (tree ob) = (applied, Some x, t) \<longrightarrow>
      r = Inl x \<and>
      trace st' = trace st1 @ EditorEnter # map EditApply applied @ map EditRevert (rev applied)"
    using with_Editor_not_entered [OF w assms(4)] by blast
  moreover have "\<exists>evs. trace st1 = trace st @ evs \<and>
      (\<forall>ev \<in> set evs. \<not> is_CallFn ev \<and> \<not> is_HookModelEnter ev \<and> ev \<noteq> Compile)"
    using assms(2) by (rule dispatch_new_events)
  ultimately show ?thesis by blast
qed

theorem call_leaves_host_structure_clean_witness:
  "dispatch toy_env toy_custom = (Inr (), toy_custom) \<and>
   local_model toy_custom = Some 0 \<and> objs toy_custom 0 = Some toy_host \<and>
   Edit_revert toy_env toy_wme (snd (snd (apply_edits toy_env [toy_wme] (tree toy_host))))
     = tree toy_host \<and>
   fst (call toy_env toy_fn_raises (PyInt 1) toy_graph [] (Some [toy_wme]) True [] toy_custom)
     = Inl (Exn ''RuntimeError'') \<and>
   length (named_children (tree toy_host)) = 1 \<and>
   length (named_children (snd (snd (apply_edits toy_env [toy_wme] (tree toy_host))))) = 2 \<and>
   tree_at
     (fst (snd (call toy_env toy_fn_raises (PyInt 1) toy_graph [] (Some [toy_wme]) True []
                  toy_custom))) 0
     = Some (tree toy_host)"
proof -
  let ?c = "call toy_env toy_fn_raises (PyInt 1) toy_graph [] (Some [toy_wme]) True [] toy_custom"
  have h0: "?c = (fst ?c, fst (snd ?c), snd (snd ?c))"
    by simp
  have d: "dispatched toy_custom"
    by (simp add: toy_defs model_defs)
  have h1: "dispatch toy_env toy_custom = (Inr (), toy_custom)"
    using d by (rule dispatch_dispatched)
  have h2: "local_model toy_custom = Some 0"
    by (simp add: toy_defs model_defs)
  have h3: "objs toy_custom 0 = Some toy_host"
    by (simp add: toy_defs model_defs)
  have rv: "reverts toy_env toy_wme"
    by (simp add: toy_wme_def new_wrapper_edit_def toy_ref_def Let_def reverts_toy_wrapper)
  have h4: "\<forall>e \<in> set (case Some [toy_wme] of None \<Rightarrow> edits toy_custom | Some given \<Rightarrow> given).
              reverts toy_env e"
    using rv by simp
  have r: "fst ?c = Inl (Exn ''RuntimeError'')"
    by (simp add: toy_defs model_defs)
  have n: "length (named_children (tree toy_host)) = 1 \<and>
      length (named_children (snd (snd (apply_edits toy_env [toy_wme] (tree toy_host))))) = 2"
    by (simp add: toy_defs model_defs)
  have rb: "Edit_revert toy_env toy_wme
      (snd (snd (apply_edits toy_env [toy_wme] (tree toy_host)))) = tree toy_host"
    by (simp add: toy_defs model_defs)
  note c = call_leaves_host_structure_clean [OF h0 h1 h2 h3 h4]
  from c h1 h2 h3 rb r n show ?thesis
    by simp
qed

section \<open>The constructor\<close>

lemma init_new_events:
  assumes "init env rpm ar kw al tok st = (r, st')"
  shows "\<exists>evs. trace st' = trace st @ evs \<and>
          (\<forall>ev \<in> set evs. \<not> is_CallFn ev \<and> \<not> is_LoadLocal ev \<and> ev \<noteq> Compile) \<and>
          (\<forall>x. Scan x \<in> set evs \<longrightarrow>
             (\<exists>p src b y.
                evs = [PatcherEnter p, src, ToMeta b, Wrap b, PatcherExit p, WrapChildren b,
                       SetModulePaths b, ExampleInput, PrepareInputs y, Scan x] \<and>
                \<not> is_Scan src \<and>
                example_input env = Inr y \<and> prepare_inputs env y = Inr x \<and>
                meta_model st' = Some b)) \<and>
          (\<forall>u. r = Inr u \<longrightarrow> (\<exists>x. Scan x \<in> set evs))"
  using assms
  by (auto simp: init_def build_meta_def mirror_source_def run_scan_def init_fields_def
        alloc_def upd_tree_def st_simps Let_def
        split: prod.splits sum.splits option.splits if_splits)




section \<open>The mirror\<close>

lemma parameters_to_meta: "p \<in> set (parameters (to_meta m)) \<Longrightarrow> device p = Meta"
  by (induction m arbitrary: p) (auto simp: o_def)

lemma parameters_Module_wrap: "parameters (Module_wrap m) = parameters m"
  by (cases m) (simp add: Module_wrap_def)

lemma build_meta_mirror:
  assumes "build_meta env st0 = (Inr b, st2)"
  shows "b = next_obj st0 \<and> meta_model st2 = Some b \<and>
         (\<exists>ob. objs st2 b = Some ob \<and>
            (\<forall>p \<in> set (parameters (tree ob)). device p = Meta) \<and>
            (\<forall>a ob0. custom_model st0 \<and> local_model st0 = Some a \<and> objs st0 a = Some ob0 \<longrightarrow>
               tree ob = Module_wrap (to_meta (tree ob0)))) \<and>
         (\<forall>c. c \<noteq> b \<longrightarrow> objs st2 c = objs st0 c)"
  using assms
  by (auto simp: build_meta_def mirror_source_def alloc_def upd_tree_def st_simps Let_def
        parameters_Module_wrap parameters_to_meta
        split: prod.splits sum.splits option.splits if_splits)

lemma init_mirror:
  assumes "init env rpm ar kw al tok st = (r, st')"
  shows "(\<forall>a ob. rpm = Inr a \<and> objs st a = Some ob \<and> a < next_obj st \<longrightarrow>
            local_model st' = Some a \<and> objs st' a = Some ob \<and> meta_model st' \<noteq> Some a \<and>
            DeepCopy a \<in> set (new_events st st')) \<and>
         (\<forall>b. meta_model st' = Some b \<longrightarrow>
            b = next_obj st \<and> filter is_ToMeta (new_events st st') = [ToMeta b]) \<and>
         (meta_model st' = None \<longrightarrow> filter is_ToMeta (new_events st st') = [])"
  using assms
  by (auto simp: init_def build_meta_def mirror_source_def run_scan_def init_fields_def
        alloc_def upd_tree_def st_simps Let_def new_events_def
        split: prod.splits sum.splits option.splits if_splits)

lemma call_meta_model:
  assumes "call env fn inputs g fargs eds inference fkwargs st = (r, st', g')"
  shows "meta_model st' = meta_model st"
  using assms
  by (auto simp: call_def dispatch_def with_Editor_def Editor_enter_def Editor_exit_def
        run_body_def hooked_run_def HookModel_enter_def HookModel_exit_def
        register_increment_hook_def remove_handle_def set_training_def alloc_def
        upd_tree_def upd_hooks_def st_simps Let_def
        split: prod.splits sum.splits option.splits if_splits)

lemma modulize_meta_model:
  assumes "modulize env m node_name module_name st = (r, st')"
  shows "meta_model st' = meta_model st"
  using assms
  by (auto simp: modulize_def upd_tree_def st_simps Let_def
        split: prod.splits sum.splits option.splits)

text \<open>
  Claim C7. The mirror is built once, in \<^verbatim>\<open>__init__\<close>: the constructor puts at most
  one module on the meta device, on a new object, to which \<^verbatim>\<open>meta_model\<close> then refers;
  \<^verbatim>\<open>__call__\<close> and \<^verbatim>\<open>modulize\<close> never make \<^verbatim>\<open>meta_model\<close> refer to another object.
  When the mirror has been built, every tensor of it is on the meta device. When the
  constructor is given a module, the mirror is the wrapped, meta-device version of a deep
  copy of it: the module itself becomes \<^verbatim>\<open>local_model\<close> and is, after the constructor,
  the very object it was before, whatever the outcome of the constructor.
\<close>

theorem init_builds_mirror_from_copy:
  assumes "init env rpm ar kw al tok st = (r, st')"
  shows "(\<forall>a ob. rpm = Inr a \<and> objs st a = Some ob \<and> a < next_obj st \<longrightarrow>
            local_model st' = Some a \<and> objs st' a = Some ob \<and> meta_model st' \<noteq> Some a \<and>
            DeepCopy a \<in> set (new_events st st')) \<and>
         (\<forall>b. meta_model st' = Some b \<longrightarrow>
            b = next_obj st \<and> filter is_ToMeta (new_events st st') = [ToMeta b]) \<and>
         (meta_model st' = None \<longrightarrow> filter is_ToMeta (new_events st st') = []) \<and>
         (\<forall>st0 b st2. build_meta env st0 = (Inr b, st2) \<longrightarrow>
            b = next_obj st0 \<and> meta_model st2 = Some b \<and>
            (\<exists>ob. objs st2 b = Some ob \<and>
               (\<forall>p \<in> set (parameters (tree ob)). device p = Meta) \<and>
               (\<forall>a ob0. custom_model st0 \<and> local_model st0 = Some a \<and> objs st0 a = Some ob0 \<longrightarrow>
                  tree ob = Module_wrap (to_meta (tree ob0)))) \<and>
            (\<forall>c. c \<noteq> b \<longrightarrow> objs st2 c = objs st0 c)) \<and>
         (\<forall>fn inputs g fargs eds inference fkwargs s.
            meta_model (fst (snd (call env fn inputs g fargs eds inference fkwargs s)))
              = meta_model s) \<and>
         (\<forall>m node_name module_name s.
            meta_model (snd (modulize env m node_name module_name s)) = meta_model s)"
proof -
  have c: "\<forall>fn inputs g fargs eds inference fkwargs s.
            meta_model (fst (snd (call env fn inputs g fargs eds inference fkwargs s)))
              = meta_model s"
  proof (intro allI)
    fix fn inputs g fargs eds inference fkwargs s
    obtain r1 s1 g1 where "call env fn inputs g fargs eds inference fkwargs s = (r1, s1, g1)"
      by (cases "call env fn inputs g fargs eds inference fkwargs s") auto
    then show "meta_model (fst (snd (call env fn inputs g fargs eds inference fkwargs s)))
              = meta_model s"
      using call_meta_model by fastforce
  qed
  have m: "\<forall>m node_name module_name s.
            meta_model (snd (modulize env m node_name module_name s)) = meta_model s"
  proof (intro allI)
    fix mr nn mn s
    obtain r1 s1 where "modulize env mr nn mn s = (r1, s1)"
      by (cases "modulize env mr nn mn s") auto
    then show "meta_model (snd (modulize env mr nn mn s)) = meta_model s"
      using modulize_meta_model by fastforce
  qed
  have b: "\<forall>st0 b st2. build_meta env st0 = (Inr b, st2) \<longrightarrow>
            b = next_obj st0 \<and> meta_model st2 = Some b \<and>
            (\<exists>ob. objs st2 b = Some ob \<and>
               (\<forall>p \<in> set (parameters (tree ob)). device p = Meta) \<and>
               (\<forall>a ob0. custom_model st0 \<and> local_model st0 = Some a \<and> objs st0 a = Some ob0 \<longrightarrow>
                  tree ob = Module_wrap (to_meta (tree ob0)))) \<and>
            (\<forall>c. c \<noteq> b \<longrightarrow> objs st2 c = objs st0 c)"
    using build_meta_mirror by blast
  show ?thesis
    using init_mirror [OF assms] b c m by (intro conjI) blast+
qed

theorem init_builds_mirror_from_copy_witness:
  "init toy_env (Inr 0) [] [] True PyNone toy_world = (Inr (), toy_custom) \<and>
   objs toy_world 0 = Some toy_host \<and> 0 < next_obj toy_world \<and>
   local_model toy_custom = Some 0 \<and> objs toy_custom 0 = Some toy_host \<and>
   meta_model toy_custom = Some 1 \<and>
   filter is_ToMeta (new_events toy_world toy_custom) = [ToMeta 1] \<and>
   map_option (\<lambda>ob. map device (parameters (tree ob))) (objs toy_custom 1) = Some [Meta, Meta] \<and>
   map_option (\<lambda>ob. map device (parameters (tree ob))) (objs toy_custom 0) = Some [Cpu, Cpu]"
proof -
  have h: "init toy_env (Inr 0) [] [] True PyNone toy_world = (Inr (), toy_custom)"
    by (simp add: toy_defs model_defs)
  have h1: "objs toy_world 0 = Some toy_host"
    by (simp add: toy_world_def)
  have h2: "0 < next_obj toy_world"
    by (simp add: toy_world_def)
  have mm: "meta_model toy_custom = Some 1"
    by (simp add: toy_defs model_defs)
  have d1: "map_option (\<lambda>ob. map device (parameters (tree ob))) (objs toy_custom 1)
            = Some [Meta, Meta]"
    by (simp add: toy_defs model_defs)
  have d0: "map_option (\<lambda>ob. map device (parameters (tree ob))) (objs toy_custom 0)
            = Some [Cpu, Cpu]"
    by (simp add: toy_defs model_defs)
  note c = init_builds_mirror_from_copy [OF h]
  have f: "local_model toy_custom = Some 0 \<and> objs toy_custom 0 = Some toy_host"
    using c [THEN conjunct1, rule_format, of 0 toy_host] h1 h2 by simp
  have t: "filter is_ToMeta (new_events toy_world toy_custom) = [ToMeta 1]"
    using c [THEN conjunct2, THEN conjunct1, rule_format, of 1] mm by simp
  show ?thesis
    using h h1 h2 f mm t d1 d0 by (intro conjI) simp_all
qed

section \<open>Recording edits\<close>

lemma modulize_ok:
  assumes "modulize env m node_name module_name st = (Inr u, st')"
  shows "\<exists>g1 b ob t1 t2.
     proxy_call env (ref_graph m) module_name node_name = Inr g1 \<and>
     trace st' = trace st @
       [MetaEdit (new_wrapper_edit m module_name), ProxyCall module_name node_name,
        MetaEdit (GraphEdit (ref_path m) g1), EditsAppend (new_wrapper_edit m module_name),
        EditsAppend (GraphEdit (ref_path m) g1)] \<and>
     edits st' = edits st @ [new_wrapper_edit m module_name, GraphEdit (ref_path m) g1] \<and>
     meta_model st = Some b \<and> objs st b = Some ob \<and>
     Edit_edit env (new_wrapper_edit m module_name) (tree ob) = Inr t1 \<and>
     Edit_edit env (GraphEdit (ref_path m) g1) t1 = Inr t2 \<and>
     tree_at st' b = Some t2"
  using assms
  by (auto simp: modulize_def upd_tree_def st_simps Let_def tree_at_def
        split: prod.splits sum.splits option.splits)

lemma wrapper_edit_not_graph_edit: "new_wrapper_edit m module_name \<noteq> GraphEdit p g1"
  by (simp add: new_wrapper_edit_def Let_def)

lemma call_edits_None:
  "call env fn inputs g fargs None inference fkwargs st
   = call env fn inputs g fargs (Some (edits st)) inference fkwargs st"
  by (simp add: call_def)

text \<open>
  Claim C8, as stated, fails: the wrapper edit is not appended to \<^verbatim>\<open>self.edits\<close>
  before the graph edit is applied. On the small host family the trace of \<^verbatim>\<open>modulize\<close>
  has both edits applied to the mirror before the first \<^verbatim>\<open>append\<close>; and when the node
  to modulize is missing, \<^verbatim>\<open>modulize\<close> raises after the wrapper edit has been applied
  to the mirror, and \<^verbatim>\<open>self.edits\<close> is still empty.
\<close>

theorem modulize_appends_last_counterexample:
  "new_events toy_custom (snd (modulize toy_env toy_ref ''a'' ''w'' toy_custom)) =
     [MetaEdit toy_wme, ProxyCall ''w'' ''a'', MetaEdit (GraphEdit [] toy_graph),
      EditsAppend toy_wme, EditsAppend (GraphEdit [] toy_graph)] \<and>
   \<not> precedes (EditsAppend toy_wme) (MetaEdit (GraphEdit [] toy_graph))
       (new_events toy_custom (snd (modulize toy_env toy_ref ''a'' ''w'' toy_custom))) \<and>
   fst (modulize toy_env_no_proxy toy_ref ''a'' ''w'' toy_custom) = Inl (Exn ''KeyError'') \<and>
   new_events toy_custom (snd (modulize toy_env_no_proxy toy_ref ''a'' ''w'' toy_custom)) =
     [MetaEdit toy_wme, ProxyCall ''w'' ''a''] \<and>
   edits (snd (modulize toy_env_no_proxy toy_ref ''a'' ''w'' toy_custom)) = []"
  by (simp add: toy_defs model_defs)

text \<open>
  Claim C8, amended. In every call of \<^verbatim>\<open>modulize\<close> that returns, the wrapper edit is
  applied to the meta model before the graph edit is applied to it, both are applied
  before either is appended to \<^verbatim>\<open>self.edits\<close>, and the wrapper edit is appended before
  the graph edit, so that \<^verbatim>\<open>self.edits\<close> ends with the wrapper edit followed by the
  graph edit. A later \<^verbatim>\<open>__call__\<close> with \<^verbatim>\<open>edits=None\<close> is the call with the recorded
  edits: when they all apply it applies exactly them, in the recorded order, on entering
  the editor scope; when one of them raises it has applied the recorded edits before
  that one, in the recorded order, and the call raises.
\<close>

theorem modulize_records_edits_in_order:
  assumes "modulize env m node_name module_name st = (Inr u, st')"
  shows "\<exists>wme ge.
     wme = new_wrapper_edit m module_name \<and>
     (\<exists>g1. proxy_call env (ref_graph m) module_name node_name = Inr g1 \<and>
        ge = GraphEdit (ref_path m) g1) \<and>
     new_events st st' =
       [MetaEdit wme, ProxyCall module_name node_name, MetaEdit ge, EditsAppend wme,
        EditsAppend ge] \<and>
     precedes (MetaEdit wme) (MetaEdit ge) (new_events st st') \<and>
     precedes (MetaEdit ge) (EditsAppend wme) (new_events st st') \<and>
     precedes (EditsAppend wme) (EditsAppend ge) (new_events st st') \<and>
     edits st' = edits st @ [wme, ge] \<and>
     (\<exists>b ob t1 t2. meta_model st = Some b \<and> objs st b = Some ob \<and>
        Edit_edit env wme (tree ob) = Inr t1 \<and> Edit_edit env ge t1 = Inr t2 \<and>
        tree_at st' b = Some t2) \<and>
     (\<forall>fn inputs g fargs inference fkwargs r s g' u1 st1 a ob.
        call env fn inputs g fargs None inference fkwargs st' = (r, s, g') \<and>
        dispatch env st' = (Inr u1, st1) \<and> local_model st1 = Some a \<and>
        objs st1 a = Some ob \<longrightarrow>
        (\<forall>applied t. apply_edits env (edits st @ [wme, ge]) (tree ob) = (applied, None, t) \<longrightarrow>
           (\<exists>body. trace s =
              trace st1 @ EditorEnter # map EditApply (edits st @ [wme, ge]) @
                RegisterIncrementHook (next_handle st1) # Compile # body @
                map EditRevert (rev (edits st @ [wme, ge])) @ [EditorExit])) \<and>
        (\<forall>applied x t. apply_edits env (edits st @ [wme, ge]) (tree ob) = (applied, Some x, t) \<longrightarrow>
           r = Inl x \<and> (\<exists>rest. edits st @ [wme, ge] = applied @ rest) \<and>
           trace s =
             trace st1 @ EditorEnter # map EditApply applied @ map EditRevert (rev applied)))"
proof -
  let ?wme = "new_wrapper_edit m module_name"
  from modulize_ok [OF assms] obtain g1 b ob t1 t2 where
    p: "proxy_call env (ref_graph m) module_name node_name = Inr g1"
    and tr: "trace st' = trace st @
       [MetaEdit ?wme, ProxyCall module_name node_name,
        MetaEdit (GraphEdit (ref_path m) g1), EditsAppend ?wme,
        EditsAppend (GraphEdit (ref_path m) g1)]"
    and ed: "edits st' = edits st @ [?wme, GraphEdit (ref_path m) g1]"
    and mt: "meta_model st = Some b \<and> objs st b = Some ob \<and>
        Edit_edit env ?wme (tree ob) = Inr t1 \<and>
        Edit_edit env (GraphEdit (ref_path m) g1) t1 = Inr t2 \<and> tree_at st' b = Some t2"
    by blast
  let ?ge = "GraphEdit (ref_path m) g1"
  let ?es = "edits st @ [?wme, ?ge]"
  have ne: "new_events st st' =
       [MetaEdit ?wme, ProxyCall module_name node_name, MetaEdit ?ge, EditsAppend ?wme,
        EditsAppend ?ge]"
    using tr by (simp add: new_events_def)
  have d: "?wme \<noteq> ?ge"
    by (rule wrapper_edit_not_graph_edit)
  have o1: "precedes (MetaEdit ?wme) (MetaEdit ?ge) (new_events st st')"
    unfolding ne using d by simp
  have o2: "precedes (MetaEdit ?ge) (EditsAppend ?wme) (new_events st st')"
    unfolding ne using d by simp
  have o3: "precedes (EditsAppend ?wme) (EditsAppend ?ge) (new_events st st')"
    unfolding ne using d by simp
  have later: "\<forall>fn inputs g fargs inference fkwargs r s g' u1 st1 a ob.
        call env fn inputs g fargs None inference fkwargs st' = (r, s, g') \<and>
        dispatch env st' = (Inr u1, st1) \<and> local_model st1 = Some a \<and>
        objs st1 a = Some ob \<longrightarrow>
        (\<forall>applied t. apply_edits env ?es (tree ob) = (applied, None, t) \<longrightarrow>
           (\<exists>body. trace s =
              trace st1 @ EditorEnter # map EditApply ?es @
                RegisterIncrementHook (next_handle st1) # Compile # body @
                map EditRevert (rev ?es) @ [EditorExit])) \<and>
        (\<forall>applied x t. apply_edits env ?es (tree ob) = (applied, Some x, t) \<longrightarrow>
           r = Inl x \<and> (\<exists>rest. ?es = applied @ rest) \<and>
           trace s =
             trace st1 @ EditorEnter # map EditApply applied @ map EditRevert (rev applied))"
  proof (intro allI impI)
    fix fn inputs g fargs inference fkwargs r s g' u1 st1 a ob'
    assume h: "call env fn inputs g fargs None inference fkwargs st' = (r, s, g') \<and>
        dispatch env st' = (Inr u1, st1) \<and> local_model st1 = Some a \<and>
        objs st1 a = Some ob'"
    then have "with_Editor env a (case None of None \<Rightarrow> edits st' | Some given \<Rightarrow> given)
           (run_body env fn inputs fargs fkwargs inference a) g st1 = (r, s, g')"
      using call_after_dispatch [of env fn inputs g fargs None inference fkwargs st' r s g' u1 st1 a]
      by blast
    then have w: "with_Editor env a ?es
           (run_body env fn inputs fargs fkwargs inference a) g st1 = (r, s, g')"
      using ed by simp
    from h have ho: "objs st1 a = Some ob'" by blast
    have e1: "\<forall>applied t. apply_edits env ?es (tree ob') = (applied, None, t) \<longrightarrow>
           (\<exists>body. trace s =
              trace st1 @ EditorEnter # map EditApply ?es @
                RegisterIncrementHook (next_handle st1) # Compile # body @
                map EditRevert (rev ?es) @ [EditorExit])"
      using with_Editor_entered [OF w ho] by blast
    have e2: "\<forall>applied x t. apply_edits env ?es (tree ob') = (applied, Some x, t) \<longrightarrow>
           r = Inl x \<and> (\<exists>rest. ?es = applied @ rest) \<and>
           trace s =
             trace st1 @ EditorEnter # map EditApply applied @ map EditRevert (rev applied)"
      using with_Editor_not_entered [OF w ho] apply_edits_prefix by blast
    from e1 e2 show
      "(\<forall>applied t. apply_edits env ?es (tree ob') = (applied, None, t) \<longrightarrow>
           (\<exists>body. trace s =
              trace st1 @ EditorEnter # map EditApply ?es @
                RegisterIncrementHook (next_handle st1) # Compile # body @
                map EditRevert (rev ?es) @ [EditorExit])) \<and>
        (\<forall>applied x t. apply_edits env ?es (tree ob') = (applied, Some x, t) \<longrightarrow>
           r = Inl x \<and> (\<exists>rest. ?es = applied @ rest) \<and>
           trace s =
             trace st1 @ EditorEnter # map EditApply applied @ map EditRevert (rev applied))"
      by (rule conjI)
  qed
  have "?wme = new_wrapper_edit m module_name \<and>
     (\<exists>g1'. proxy_call env (ref_graph m) module_name node_name = Inr g1' \<and>
        ?ge = GraphEdit (ref_path m) g1') \<and>
     new_events st st' =
       [MetaEdit ?wme, ProxyCall module_name node_name, MetaEdit ?ge, EditsAppend ?wme,
        EditsAppend ?ge] \<and>
     precedes (MetaEdit ?wme) (MetaEdit ?ge) (new_events st st') \<and>
     precedes (MetaEdit ?ge) (EditsAppend ?wme) (new_events st st') \<and>
     precedes (EditsAppend ?wme) (EditsAppend ?ge) (new_events st st') \<and>
     edits st' = ?es \<and>
     (\<exists>b ob t1 t2. meta_model st = Some b \<and> objs st b = Some ob \<and>
        Edit_edit env ?wme (tree ob) = Inr t1 \<and> Edit_edit env ?ge t1 = Inr t2 \<and>
        tree_at st' b = Some t2)"
    using p ne o1 o2 o3 ed mt by (intro conjI) blast+
  with later show ?thesis
    by blast
qed

theorem modulize_records_edits_in_order_witness:
  "modulize toy_env toy_ref ''a'' ''w'' toy_custom = (Inr (), toy_modulized) \<and>
   edits toy_custom = [] \<and>
   edits toy_modulized = [toy_wme, GraphEdit [] toy_graph] \<and>
   new_events toy_custom toy_modulized =
     [MetaEdit toy_wme, ProxyCall ''w'' ''a'', MetaEdit (GraphEdit [] toy_graph),
      EditsAppend toy_wme, EditsAppend (GraphEdit [] toy_graph)] \<and>
   dispatch toy_env toy_modulized = (Inr (), toy_modulized) \<and>
   local_model toy_modulized = Some 0 \<and> objs toy_modulized 0 = Some toy_host \<and>
   fst (apply_edits toy_env [toy_wme, GraphEdit [] toy_graph] (tree toy_host))
     = [toy_wme, GraphEdit [] toy_graph] \<and>
   fst (snd (apply_edits toy_env [toy_wme, GraphEdit [] toy_graph] (tree toy_host))) = None \<and>
   take 3 (new_events toy_modulized
     (fst (snd (call toy_env toy_fn (PyInt 1) toy_graph [] None True [] toy_modulized))))
     = [EditorEnter, EditApply toy_wme, EditApply (GraphEdit [] toy_graph)]"
proof -
  have h: "modulize toy_env toy_ref ''a'' ''w'' toy_custom = (Inr (), toy_modulized)"
    by (simp add: toy_defs model_defs)
  have e0: "edits toy_custom = []"
    by (simp add: toy_defs model_defs)
  have px: "proxy_call toy_env (ref_graph toy_ref) ''w'' ''a'' = Inr toy_graph"
    by (simp add: toy_env_def toy_ref_def)
  have rp: "ref_path toy_ref = []"
    by (simp add: toy_ref_def)
  from modulize_records_edits_in_order [OF h] obtain wme ge g1 where
    w: "wme = new_wrapper_edit toy_ref ''w''"
    and g: "proxy_call toy_env (ref_graph toy_ref) ''w'' ''a'' = Inr g1"
    and gg: "ge = GraphEdit (ref_path toy_ref) g1"
    and ev: "new_events toy_custom toy_modulized =
       [MetaEdit wme, ProxyCall ''w'' ''a'', MetaEdit ge, EditsAppend wme, EditsAppend ge]"
    and ed: "edits toy_modulized = edits toy_custom @ [wme, ge]"
    by (elim exE conjE) (rule that)
  from g gg px rp have g': "ge = GraphEdit [] toy_graph"
    by simp
  from w have w': "wme = toy_wme"
    by (simp add: toy_wme_def)
  have d: "dispatched toy_modulized"
    by (simp add: toy_defs model_defs)
  have c1: "dispatch toy_env toy_modulized = (Inr (), toy_modulized)"
    using d by (rule dispatch_dispatched)
  have c2: "local_model toy_modulized = Some 0 \<and> objs toy_modulized 0 = Some toy_host"
    by (simp add: toy_defs model_defs)
  have c3: "fst (apply_edits toy_env [toy_wme, GraphEdit [] toy_graph] (tree toy_host))
     = [toy_wme, GraphEdit [] toy_graph] \<and>
     fst (snd (apply_edits toy_env [toy_wme, GraphEdit [] toy_graph] (tree toy_host))) = None"
    by (simp add: toy_defs model_defs)
  have c4: "take 3 (new_events toy_modulized
     (fst (snd (call toy_env toy_fn (PyInt 1) toy_graph [] None True [] toy_modulized))))
     = [EditorEnter, EditApply toy_wme, EditApply (GraphEdit [] toy_graph)]"
    by (simp add: toy_defs model_defs)
  show ?thesis
    using h e0 ed ev c1 c2 c3 c4 unfolding w' g' e0 by (intro conjI) simp_all
qed

section \<open>Loading the local model\<close>

lemma filter_LoadLocal_EditApply [simp]: "filter is_LoadLocal (map EditApply xs) = []"
  by (induction xs) simp_all

lemma filter_LoadLocal_EditRevert [simp]: "filter is_LoadLocal (map EditRevert xs) = []"
  by (induction xs) simp_all

lemma filter_Freeze_EditApply [simp]: "filter is_Freeze (map EditApply xs) = []"
  by (induction xs) simp_all

lemma filter_Freeze_EditRevert [simp]: "filter is_Freeze (map EditRevert xs) = []"
  by (induction xs) simp_all

lemma call_loads:
  assumes "call env fn inputs g fargs eds inference fkwargs st = (r, st', g')"
  shows "\<exists>evs. trace st' = trace st @ evs \<and>
          (dispatched st \<longrightarrow>
             dispatched st' \<and> filter is_LoadLocal evs = [] \<and> filter is_Freeze evs = []) \<and>
          (\<not> dispatched st \<longrightarrow>
             filter is_LoadLocal evs = [LoadLocal (repoid_path_clsname st)] \<and>
             (case load_local env (repoid_path_clsname st) (args st) (kwargs st) of
                Inr ob \<Rightarrow> dispatched st' \<and> length (filter is_Freeze evs) = 1
              | Inl e \<Rightarrow> r = Inl e \<and> \<not> dispatched st' \<and> filter is_Freeze evs = []))"
  using assms
  by (auto simp: call_def dispatch_def with_Editor_def Editor_enter_def Editor_exit_def
        run_body_def hooked_run_def HookModel_enter_def HookModel_exit_def
        register_increment_hook_def remove_handle_def set_training_def alloc_def
        upd_tree_def upd_hooks_def st_simps Let_def
        split: prod.splits sum.splits option.splits if_splits)

lemma call_loads_weak:
  assumes "call env fn inputs g fargs eds inference fkwargs st = (r, st', g')"
  shows "\<exists>evs. trace st' = trace st @ evs \<and>
          (dispatched st \<longrightarrow>
             dispatched st' \<and> filter is_LoadLocal evs = [] \<and> filter is_Freeze evs = []) \<and>
          (\<not> dispatched st \<longrightarrow>
             (dispatched st' \<and> length (filter is_Freeze evs) = 1) \<or>
             (\<not> dispatched st' \<and> filter is_Freeze evs = []))"
proof -
  from call_loads [OF assms] obtain evs where t: "trace st' = trace st @ evs"
    and d: "dispatched st \<longrightarrow>
             dispatched st' \<and> filter is_LoadLocal evs = [] \<and> filter is_Freeze evs = []"
    and n: "\<not> dispatched st \<longrightarrow>
             filter is_LoadLocal evs = [LoadLocal (repoid_path_clsname st)] \<and>
             (case load_local env (repoid_path_clsname st) (args st) (kwargs st) of
                Inr ob \<Rightarrow> dispatched st' \<and> length (filter is_Freeze evs) = 1
              | Inl e \<Rightarrow> r = Inl e \<and> \<not> dispatched st' \<and> filter is_Freeze evs = [])"
    by blast
  have "\<not> dispatched st \<longrightarrow>
             (dispatched st' \<and> length (filter is_Freeze evs) = 1) \<or>
             (\<not> dispatched st' \<and> filter is_Freeze evs = [])"
    using n by (cases "load_local env (repoid_path_clsname st) (args st) (kwargs st)") simp_all
  with t d show ?thesis by blast
qed

lemma calls_loads:
  "\<exists>evs. trace (calls cs st) = trace st @ evs \<and>
     (dispatched st \<longrightarrow>
        dispatched (calls cs st) \<and> filter is_LoadLocal evs = [] \<and> filter is_Freeze evs = []) \<and>
     length (filter is_Freeze evs) \<le> 1"
proof (induction cs arbitrary: st)
  case Nil
  show ?case by simp
next
  case (Cons c cs)
  obtain r st1 g1 where c: "call_with c st = (r, st1, g1)"
    by (cases "call_with c st") auto
  from c obtain evs1 where t1: "trace st1 = trace st @ evs1"
    and d1: "dispatched st \<longrightarrow>
               dispatched st1 \<and> filter is_LoadLocal evs1 = [] \<and> filter is_Freeze evs1 = []"
    and n1: "\<not> dispatched st \<longrightarrow>
               (dispatched st1 \<and> length (filter is_Freeze evs1) = 1) \<or>
               (\<not> dispatched st1 \<and> filter is_Freeze evs1 = [])"
    using call_loads_weak [of "ca_env c" "ca_fn c" "ca_inputs c" "ca_graph c" "ca_args c"
        "ca_edits c" "ca_inference c" "ca_kwargs c" st r st1 g1]
    unfolding call_with_def by blast
  from Cons.IH [of st1] obtain evs2 where t2: "trace (calls cs st1) = trace st1 @ evs2"
    and d2: "dispatched st1 \<longrightarrow>
               dispatched (calls cs st1) \<and> filter is_LoadLocal evs2 = [] \<and>
               filter is_Freeze evs2 = []"
    and l2: "length (filter is_Freeze evs2) \<le> 1"
    by blast
  have s: "calls (c # cs) st = calls cs st1"
    using c by simp
  have "trace (calls (c # cs) st) = trace st @ (evs1 @ evs2)"
    using s t1 t2 by simp
  moreover have "dispatched st \<longrightarrow>
        dispatched (calls (c # cs) st) \<and> filter is_LoadLocal (evs1 @ evs2) = [] \<and>
        filter is_Freeze (evs1 @ evs2) = []"
    using s d1 d2 by simp
  moreover have "length (filter is_Freeze (evs1 @ evs2)) \<le> 1"
  proof (cases "dispatched st")
    case True
    with d1 d2 show ?thesis by simp
  next
    case False
    with n1 d2 l2 show ?thesis by auto
  qed
  ultimately show ?case by blast
qed

lemma init_dispatched:
  assumes "init env rpm ar kw al tok st0 = (r, st1)"
  shows "dispatched st1 \<longleftrightarrow> (\<exists>a. rpm = Inr a)"
  using assms
  by (cases rpm)
     (auto simp: init_def build_meta_def mirror_source_def run_scan_def init_fields_def
        alloc_def upd_tree_def st_simps Let_def
        split: prod.splits sum.splits option.splits if_splits)

text \<open>
  Claim C9, as stated, fails. On a model constructed from a repo id, a first
  \<^verbatim>\<open>__call__\<close> whose \<^verbatim>\<open>_load_local\<close> raises ends with that exception and leaves
  \<^verbatim>\<open>dispatched\<close> false; the next \<^verbatim>\<open>__call__\<close> invokes \<^verbatim>\<open>_load_local\<close> again:
  two invocations in the lifetime of one object.
\<close>

theorem load_local_invoked_twice_counterexample:
  "\<not> dispatched toy_repo \<and>
   fst (call_with (toy_call toy_env_no_load) toy_repo) = Inl (Exn ''OSError'') \<and>
   \<not> dispatched (calls [toy_call toy_env_no_load] toy_repo) \<and>
   filter is_LoadLocal
     (new_events toy_repo (calls [toy_call toy_env_no_load, toy_call toy_env] toy_repo))
     = [LoadLocal ''gpt2'', LoadLocal ''gpt2''] \<and>
   dispatched (calls [toy_call toy_env_no_load, toy_call toy_env] toy_repo)"
  by (simp add: toy_defs model_defs)

text \<open>
  Claim C9, amended. Across the lifetime of one model object \<^verbatim>\<open>_load_local\<close> returns
  at most once (a \<^verbatim>\<open>Freeze\<close> event marks a load that returned), and it is never invoked
  once \<^verbatim>\<open>dispatched\<close> is true: over any sequence of calls \<^verbatim>\<open>dispatched\<close> never returns
  to false. One \<^verbatim>\<open>__call__\<close> invokes \<^verbatim>\<open>_load_local\<close> at most once, and exactly once
  when the model is not dispatched: then \<^verbatim>\<open>dispatched\<close> becomes true if the load
  returns, and stays false, the call raising, if the load raises. The constructor
  invokes no load and leaves \<^verbatim>\<open>dispatched\<close> true exactly for a user-supplied module.
\<close>

theorem load_local_returns_at_most_once:
  "(dispatched st \<longrightarrow>
      dispatched (calls cs st) \<and> filter is_LoadLocal (new_events st (calls cs st)) = []) \<and>
   length (filter is_Freeze (new_events st (calls cs st))) \<le> 1 \<and>
   (\<forall>env fn inputs g fargs eds inference fkwargs r st' g'.
      call env fn inputs g fargs eds inference fkwargs st = (r, st', g') \<longrightarrow>
      length (filter is_LoadLocal (new_events st st')) \<le> 1 \<and>
      (dispatched st \<longrightarrow> dispatched st') \<and>
      (\<not> dispatched st \<longrightarrow>
         filter is_LoadLocal (new_events st st') = [LoadLocal (repoid_path_clsname st)] \<and>
         (case load_local env (repoid_path_clsname st) (args st) (kwargs st) of
            Inr ob \<Rightarrow> dispatched st'
          | Inl e \<Rightarrow> r = Inl e \<and> \<not> dispatched st'))) \<and>
   (\<forall>env rpm ar kw al tok st0 r st1.
      init env rpm ar kw al tok st0 = (r, st1) \<longrightarrow>
      (dispatched st1 \<longleftrightarrow> (\<exists>a. rpm = Inr a)) \<and>
      filter is_LoadLocal (new_events st0 st1) = [])"
proof (intro conjI allI impI)
  from calls_loads [of cs st] obtain evs where t: "trace (calls cs st) = trace st @ evs"
    and d: "dispatched st \<longrightarrow>
        dispatched (calls cs st) \<and> filter is_LoadLocal evs = [] \<and> filter is_Freeze evs = []"
    and l: "length (filter is_Freeze evs) \<le> 1"
    by blast
  from t have n: "new_events st (calls cs st) = evs"
    by (simp add: new_events_def)
  show "length (filter is_Freeze (new_events st (calls cs st))) \<le> 1"
    using l n by simp
  show "dispatched (calls cs st)" if "dispatched st"
    using d that by simp
  show "filter is_LoadLocal (new_events st (calls cs st)) = []" if "dispatched st"
    using d n that by simp
next
  fix env fn inputs g fargs eds inference fkwargs r st' g'
  assume c: "call env fn inputs g fargs eds inference fkwargs st = (r, st', g')"
  from call_loads [OF c] obtain evs where t: "trace st' = trace st @ evs"
    and d: "dispatched st \<longrightarrow>
             dispatched st' \<and> filter is_LoadLocal evs = [] \<and> filter is_Freeze evs = []"
    and u: "\<not> dispatched st \<longrightarrow>
             filter is_LoadLocal evs = [LoadLocal (repoid_path_clsname st)] \<and>
             (case load_local env (repoid_path_clsname st) (args st) (kwargs st) of
                Inr ob \<Rightarrow> dispatched st' \<and> length (filter is_Freeze evs) = 1
              | Inl e \<Rightarrow> r = Inl e \<and> \<not> dispatched st' \<and> filter is_Freeze evs = [])"
    by blast
  from t have n: "new_events st st' = evs"
    by (simp add: new_events_def)
  show "length (filter is_LoadLocal (new_events st st')) \<le> 1"
    using d u n by (cases "dispatched st") simp_all
  show "dispatched st'" if "dispatched st"
    using d that by simp
  show "filter is_LoadLocal (new_events st st') = [LoadLocal (repoid_path_clsname st)]"
    if "\<not> dispatched st"
    using u n that by simp
  show "case load_local env (repoid_path_clsname st) (args st) (kwargs st) of
            Inr ob \<Rightarrow> dispatched st'
          | Inl e \<Rightarrow> r = Inl e \<and> \<not> dispatched st'"
    if "\<not> dispatched st"
    using u that
    by (cases "load_local env (repoid_path_clsname st) (args st) (kwargs st)") simp_all
next
  fix env rpm ar kw al tok st0 r st1
  assume i: "init env rpm ar kw al tok st0 = (r, st1)"
  show "dispatched st1 \<longleftrightarrow> (\<exists>a. rpm = Inr a)"
    using i by (rule init_dispatched)
  from init_new_events [OF i] obtain evs where t: "trace st1 = trace st0 @ evs"
    and q: "\<forall>ev \<in> set evs. \<not> is_CallFn ev \<and> \<not> is_LoadLocal ev \<and> ev \<noteq> Compile"
    by blast
  from t have n: "new_events st0 st1 = evs"
    by (simp add: new_events_def)
  show "filter is_LoadLocal (new_events st0 st1) = []"
    unfolding n filter_empty_conv using q by blast
qed

theorem load_local_returns_at_most_once_witness:
  "dispatched toy_custom \<and>
   dispatched (calls [toy_call toy_env, toy_call toy_env] toy_custom) \<and>
   filter is_LoadLocal
     (new_events toy_custom (calls [toy_call toy_env, toy_call toy_env] toy_custom)) = [] \<and>
   length (filter is_Freeze
     (new_events toy_repo (calls [toy_call toy_env_no_load, toy_call toy_env] toy_repo))) = 1"
proof -
  have h: "dispatched toy_custom"
    by (simp add: toy_defs model_defs)
  have a: "dispatched (calls [toy_call toy_env, toy_call toy_env] toy_custom) \<and>
      filter is_LoadLocal
        (new_events toy_custom (calls [toy_call toy_env, toy_call toy_env] toy_custom)) = []"
    using load_local_returns_at_most_once
            [of toy_custom "[toy_call toy_env, toy_call toy_env]", THEN conjunct1] h
    by simp
  have f: "length (filter is_Freeze
     (new_events toy_repo (calls [toy_call toy_env_no_load, toy_call toy_env] toy_repo))) = 1"
    by (simp add: toy_defs model_defs)
  show ?thesis
    using h a f by simp
qed

section \<open>The increment hook on the exits of the call\<close>

text \<open>
  The handle of the increment hook is the value of \<^verbatim>\<open>next_handle\<close> when the body of the
  editor scope starts. When the body returns the hook is gone; when it raises, be it in
  \<^verbatim>\<open>graph.compile\<close>, in \<^verbatim>\<open>_prepare_inputs\<close> or in \<^verbatim>\<open>fn\<close>, the hook is still
  registered.
\<close>

lemma run_body_returns_removes_hook:
  assumes "run_body env fn inputs fargs fkwargs inference a g st = (Inr out, st', g')"
  shows "next_handle st \<notin> handles_on st' a"
  using assms
  by (auto simp: run_body_def hooked_run_def HookModel_enter_def HookModel_exit_def
        register_increment_hook_def remove_handle_def set_training_def
        upd_hooks_def st_simps Let_def handles_on_def
        split: prod.splits option.splits sum.splits)

lemma run_body_raises_keeps_hook:
  assumes "run_body env fn inputs fargs fkwargs inference a g st = (Inl e, st', g')"
    and "objs st a = Some ob"
  shows "next_handle st \<in> handles_on st' a"
  using assms
  by (auto simp: run_body_def hooked_run_def HookModel_enter_def HookModel_exit_def
        register_increment_hook_def remove_handle_def set_training_def
        upd_hooks_def st_simps Let_def handles_on_def attach_handles image_iff
        split: prod.splits option.splits sum.splits)

text \<open>
  Claim C1. The claim asks that the increment hook be removed on every exit path of
  \<^verbatim>\<open>__call__\<close>; line 190 removes it on the path where the body returns only. On the
  small host family, with a host run that raises, the call ends
  with the exception, no hook was registered on the host before the call, and the
  increment hook (handle 0) is still registered on it afterwards: the trace of the call
  has no \<^verbatim>\<open>RemoveHandle\<close> event, whereas the \<^verbatim>\<open>HookModel\<close> and \<^verbatim>\<open>Editor\<close> contexts
  were left.
\<close>

theorem increment_hook_stays_when_fn_raises:
  "(case call toy_env toy_fn_raises (PyInt 1) toy_graph [] None True [] toy_custom of
      (r, st', g') \<Rightarrow>
        r = Inl (Exn ''RuntimeError'') \<and>
        handles_on toy_custom 0 = {} \<and>
        handles_on st' 0 = {0} \<and>
        new_events toy_custom st' =
          [EditorEnter, RegisterIncrementHook 0, Compile, SetTraining False,
           PrepareInputs (PyInt 1), InferenceModeEnter True, HookModelEnter [''layer0''],
           CallFn (PyInt 1), HookModelExit, InferenceModeExit, EditorExit])"
  by (simp add: toy_defs model_defs)

end
